theory Spec2Isabelle
  imports Main "HOL-Library.Sublist"
begin

section \<open>The chat store: data model\<close>

text \<open>
  The store of \<^verbatim>\<open>stores/chat.ts\<close> (the second document of \<^verbatim>\<open>src/frontend/src/App.tsx\<close>)
  is one zustand state object mutated by \<^verbatim>\<open>set\<close>. Each action is modelled as a function
  from the state to the new state. An action that awaits a remote call is split at the
  \<^verbatim>\<open>await\<close>: the part that runs before it, and the part that runs when the call has
  settled, on the state the store holds at that moment. The outcome of the remote call is
  an argument: \<open>Inl\<close> what was thrown, \<open>Inr\<close> the response data.
\<close>

datatype role = User | Assistant | System | Tool

text \<open>
  \<^verbatim>\<open>interface Message\<close>. The field \<^verbatim>\<open>id\<close> is \<open>msg_id\<close> and \<^verbatim>\<open>created_at\<close> is
  \<open>msg_created_at\<close>; the optional fields are options; the elements of
  \<^verbatim>\<open>tool_calls: unknown[]\<close> are kept as opaque strings.
\<close>

record message =
  msg_id :: string
  role :: role
  content :: string
  tool_call_id :: "string option"
  tool_calls :: "string list option"
  msg_created_at :: string
  isStreaming :: "bool option"

text \<open>
  \<^verbatim>\<open>interface Session\<close>. The field \<^verbatim>\<open>id\<close> is \<open>sess_id\<close>. The two timestamps are ISO
  strings in the source and are only ever read through \<^verbatim>\<open>new Date(s).getTime()\<close>; the
  model holds that number of milliseconds (a valid date, so no NaN). An optional field
  is \<open>None\<close> when the object has no value for it (the property is missing, or is
  \<^verbatim>\<open>null\<close>). The last field, \<open>sess_messages\<close>, is the property \<^verbatim>\<open>messages\<close>: the interface
  does not declare it, but an entry of the list carries it once a response that has it was
  spread over the entry (see \<open>spread_detail\<close> below).
\<close>

record session =
  sess_id :: string
  title :: string
  description :: "string option"
  model_name :: string
  is_archived :: bool
  is_pinned :: bool
  tags :: "string list"
  total_tokens_used :: nat
  created_at :: int
  updated_at :: int
  message_count :: "nat option"
  last_message_preview :: "string option"
  sess_messages :: "message list option"

text \<open>The data fields of \<^verbatim>\<open>interface ChatState\<close>.\<close>

record chat_state =
  sessions :: "session list"
  currentSessionId :: "string option"
  sessionMessages :: "string \<rightharpoonup> message list"
  isLoadingSessions :: bool
  isLoadingMessages :: bool
  isSending :: bool
  isGeneratingTitle :: bool
  streamingContent :: string
  currentPhase :: "string option"
  error :: "string option"

definition initial_state :: chat_state where
  "initial_state =
     \<lparr>sessions = [], currentSessionId = None, sessionMessages = Map.empty,
      isLoadingSessions = False, isLoadingMessages = False, isSending = False,
      isGeneratingTitle = False, streamingContent = [], currentPhase = None,
      error = None\<rparr>"

text \<open>
  What a \<^verbatim>\<open>catch (error: unknown)\<close> receives: an \<^verbatim>\<open>Error\<close> with its message, or any
  other value. \<open>err_message\<close> is
  \<^verbatim>\<open>error instanceof Error ? error.message : fallback\<close>.
\<close>

datatype thrown = JsError string | NonError

fun err_message :: "string \<Rightarrow> thrown \<Rightarrow> string" where
  "err_message fallback (JsError m) = m"
| "err_message fallback NonError = fallback"

text \<open>\<^verbatim>\<open>getSessionMessages\<close>: \<^verbatim>\<open>get().sessionMessages[sessionId] || []\<close>.\<close>

definition getSessionMessages :: "chat_state \<Rightarrow> string \<Rightarrow> message list" where
  "getSessionMessages st sid = (case sessionMessages st sid of None \<Rightarrow> [] | Some ms \<Rightarrow> ms)"

definition clearError :: "chat_state \<Rightarrow> chat_state" where
  "clearError st = st\<lparr>error := None\<rparr>"

definition getCurrentSession :: "chat_state \<Rightarrow> session option" where
  "getCurrentSession st = find (\<lambda>s. Some (sess_id s) = currentSessionId st) (sessions st)"

section \<open>Session registry actions\<close>

subsection \<open>Object spread of a response over a session\<close>

text \<open>
  \<^verbatim>\<open>{ ...s, ...session }\<close>: every property the response object has overrides the one
  of \<^verbatim>\<open>s\<close>, whatever its value; the properties it lacks stay. A response follows the
  backend's session schema. A required property of the interface is either missing from
  the response or there with a value of its type. An optional one (and \<^verbatim>\<open>messages\<close>) can
  also be there with the value \<^verbatim>\<open>null\<close>, and then the entry loses its value.
\<close>

datatype 'a json_prop = Absent | Null | Present 'a

record session_fields =
  f_id :: "string option"
  f_title :: "string option"
  f_description :: "string json_prop"
  f_model_name :: "string option"
  f_is_archived :: "bool option"
  f_is_pinned :: "bool option"
  f_tags :: "string list option"
  f_total_tokens_used :: "nat option"
  f_created_at :: "int option"
  f_updated_at :: "int option"
  f_message_count :: "nat json_prop"
  f_last_message_preview :: "string json_prop"

definition or_else :: "'a option \<Rightarrow> 'a \<Rightarrow> 'a" where
  "or_else v d = (case v of None \<Rightarrow> d | Some x \<Rightarrow> x)"

fun override :: "'a json_prop \<Rightarrow> 'a option \<Rightarrow> 'a option" where
  "override Absent old = old"
| "override Null old = None"
| "override (Present v) old = Some v"

definition spread :: "session \<Rightarrow> session_fields \<Rightarrow> session" where
  "spread s f =
     \<lparr>sess_id = or_else (f_id f) (sess_id s),
      title = or_else (f_title f) (title s),
      description = override (f_description f) (description s),
      model_name = or_else (f_model_name f) (model_name s),
      is_archived = or_else (f_is_archived f) (is_archived s),
      is_pinned = or_else (f_is_pinned f) (is_pinned s),
      tags = or_else (f_tags f) (tags s),
      total_tokens_used = or_else (f_total_tokens_used f) (total_tokens_used s),
      created_at = or_else (f_created_at f) (created_at s),
      updated_at = or_else (f_updated_at f) (updated_at s),
      message_count = override (f_message_count f) (message_count s),
      last_message_preview =
        override (f_last_message_preview f) (last_message_preview s),
      sess_messages = sess_messages s\<rparr>"

subsection \<open>fetchSessions, createSession\<close>

definition fetchSessions_begin :: "chat_state \<Rightarrow> chat_state" where
  "fetchSessions_begin st = st\<lparr>isLoadingSessions := True, error := None\<rparr>"

fun fetchSessions_settle :: "thrown + session list \<Rightarrow> chat_state \<Rightarrow> chat_state" where
  "fetchSessions_settle (Inr ss) st = st\<lparr>sessions := ss, isLoadingSessions := False\<rparr>"
| "fetchSessions_settle (Inl e) st =
     st\<lparr>error := Some (err_message ''Failed to load sessions'' e),
        isLoadingSessions := False\<rparr>"

definition createSession_begin :: "chat_state \<Rightarrow> chat_state" where
  "createSession_begin st = st\<lparr>error := None\<rparr>"

text \<open>
  \<open>createSession_settle\<close> returns the state with what the promise settles to: the created
  session, or the error it re-throws.
\<close>

fun createSession_settle ::
  "thrown + session \<Rightarrow> chat_state \<Rightarrow> chat_state \<times> (thrown + session)" where
  "createSession_settle (Inr s) st =
     (st\<lparr>sessions := s # sessions st,
         currentSessionId := Some (sess_id s),
         sessionMessages := (sessionMessages st)(sess_id s \<mapsto> [])\<rparr>, Inr s)"
| "createSession_settle (Inl e) st =
     (st\<lparr>error := Some (err_message ''Failed to create session'' e)\<rparr>, Inl e)"

subsection \<open>selectSession\<close>

text \<open>
  The response of \<^verbatim>\<open>GET /api/v1/sessions/{id}\<close>: session fields and the property
  \<^verbatim>\<open>messages\<close>. \<open>messages_or_empty\<close> is \<^verbatim>\<open>session.messages || []\<close> (an array, even an
  empty one, is truthy). \<open>spread_detail\<close> is \<^verbatim>\<open>{ ...s, ...session }\<close> for this response:
  its \<^verbatim>\<open>messages\<close> property is copied onto the entry with the others.
\<close>

record session_detail =
  d_fields :: session_fields
  d_messages :: "message list json_prop"

fun messages_or_empty :: "message list json_prop \<Rightarrow> message list" where
  "messages_or_empty (Present ms) = ms"
| "messages_or_empty _ = []"

definition spread_detail :: "session \<Rightarrow> session_detail \<Rightarrow> session" where
  "spread_detail s session =
     (spread s (d_fields session))
       \<lparr>sess_messages := override (d_messages session) (sess_messages s)\<rparr>"

definition selectSession_begin :: "string \<Rightarrow> chat_state \<Rightarrow> chat_state" where
  "selectSession_begin sessionId st =
     (let st1 = (if sessionMessages st sessionId \<noteq> None
                 then st\<lparr>currentSessionId := Some sessionId\<rparr> else st)
      in st1\<lparr>isLoadingMessages := True, currentPhase := None, error := None\<rparr>)"

fun selectSession_settle ::
  "string \<Rightarrow> thrown + session_detail \<Rightarrow> chat_state \<Rightarrow> chat_state" where
  "selectSession_settle sessionId (Inr resp) st =
     st\<lparr>currentSessionId := Some sessionId,
        sessionMessages :=
          (sessionMessages st)(sessionId \<mapsto> messages_or_empty (d_messages resp)),
        sessions :=
          map (\<lambda>s. if sess_id s = sessionId then spread_detail s resp else s)
            (sessions st),
        isLoadingMessages := False\<rparr>"
| "selectSession_settle sessionId (Inl e) st =
     st\<lparr>error := Some (err_message ''Failed to load session'' e),
        isLoadingMessages := False\<rparr>"

subsection \<open>deleteSession, updateSession, togglePinSession, archiveSession\<close>

fun deleteSession :: "string \<Rightarrow> thrown + unit \<Rightarrow> chat_state \<Rightarrow> chat_state" where
  "deleteSession sessionId (Inr _) st =
     st\<lparr>sessions := filter (\<lambda>s. sess_id s \<noteq> sessionId) (sessions st),
        currentSessionId :=
          (if currentSessionId st = Some sessionId then None else currentSessionId st),
        sessionMessages := (sessionMessages st)(sessionId := None)\<rparr>"
| "deleteSession sessionId (Inl e) st =
     st\<lparr>error := Some (err_message ''Failed to delete session'' e)\<rparr>"

fun updateSession :: "string \<Rightarrow> thrown + session_fields \<Rightarrow> chat_state \<Rightarrow> chat_state" where
  "updateSession sessionId (Inr updatedSession) st =
     st\<lparr>sessions :=
          map (\<lambda>s. if sess_id s = sessionId then spread s updatedSession else s)
            (sessions st)\<rparr>"
| "updateSession sessionId (Inl e) st =
     st\<lparr>error := Some (err_message ''Failed to update session'' e)\<rparr>"

text \<open>
  The comparator of \<^verbatim>\<open>togglePinSession\<close>: negative when \<open>a\<close> goes first.
\<close>

definition pin_compare :: "session \<Rightarrow> session \<Rightarrow> int" where
  "pin_compare a b =
     (if is_pinned a \<noteq> is_pinned b then (if is_pinned a then - 1 else 1)
      else updated_at b - updated_at a)"

text \<open>
  \<^verbatim>\<open>Array.prototype.sort(compare)\<close> is a stable sort: for a consistent comparator (and
  this one is) the result is the one permutation in which \<open>a\<close> stands before \<open>b\<close> whenever
  \<open>compare a b < 0\<close>, and equal elements keep their order. Insertion from the right
  computes it.
\<close>

fun sort_insert :: "('a \<Rightarrow> 'a \<Rightarrow> int) \<Rightarrow> 'a \<Rightarrow> 'a list \<Rightarrow> 'a list" where
  "sort_insert cmp x [] = [x]"
| "sort_insert cmp x (y # ys) =
     (if cmp x y \<le> 0 then x # y # ys else y # sort_insert cmp x ys)"

definition array_sort :: "('a \<Rightarrow> 'a \<Rightarrow> int) \<Rightarrow> 'a list \<Rightarrow> 'a list" where
  "array_sort cmp xs = foldr (sort_insert cmp) xs []"

fun togglePinSession :: "string \<Rightarrow> thrown + session \<Rightarrow> chat_state \<Rightarrow> chat_state" where
  "togglePinSession sessionId (Inr updatedSession) st =
     st\<lparr>sessions :=
          array_sort pin_compare
            (map (\<lambda>s. if sess_id s = sessionId
                      then s\<lparr>is_pinned := is_pinned updatedSession\<rparr> else s)
               (sessions st))\<rparr>"
| "togglePinSession sessionId (Inl e) st =
     st\<lparr>error := Some (err_message ''Failed to pin session'' e)\<rparr>"

fun archiveSession :: "string \<Rightarrow> thrown + unit \<Rightarrow> chat_state \<Rightarrow> chat_state" where
  "archiveSession sessionId (Inr _) st =
     st\<lparr>sessions := filter (\<lambda>s. sess_id s \<noteq> sessionId) (sessions st),
        currentSessionId :=
          (if currentSessionId st = Some sessionId then None else currentSessionId st)\<rparr>"
| "archiveSession sessionId (Inl e) st =
     st\<lparr>error := Some (err_message ''Failed to archive session'' e)\<rparr>"

subsection \<open>generateSessionTitle\<close>

text \<open>\<^verbatim>\<open>const { title, description } = response.data\<close>.\<close>

record title_response =
  r_title :: string
  r_description :: "string option"

definition generateSessionTitle_begin :: "chat_state \<Rightarrow> chat_state" where
  "generateSessionTitle_begin st = st\<lparr>isGeneratingTitle := True\<rparr>"

fun generateSessionTitle_settle ::
  "string \<Rightarrow> thrown + title_response \<Rightarrow> chat_state \<Rightarrow> chat_state" where
  "generateSessionTitle_settle sessionId (Inr resp) st =
     st\<lparr>sessions :=
          map (\<lambda>s. if sess_id s = sessionId
                    then s\<lparr>title := r_title resp, description := r_description resp\<rparr>
                    else s)
            (sessions st),
        isGeneratingTitle := False\<rparr>"
| "generateSessionTitle_settle sessionId (Inl e) st = st\<lparr>isGeneratingTitle := False\<rparr>"

section \<open>sendMessage: the streaming ingestion handler\<close>

subsection \<open>The provisional messages\<close>

text \<open>
  The four clock reads of one send: \<^verbatim>\<open>Date.now()\<close> in decimal and
  \<^verbatim>\<open>new Date().toISOString()\<close>, for the user message and for the placeholder.
\<close>

record clock =
  now_user :: string
  iso_user :: string
  now_assistant :: string
  iso_assistant :: string

definition userMessage :: "clock \<Rightarrow> string \<Rightarrow> message" where
  "userMessage clk text =
     \<lparr>msg_id = ''temp-'' @ now_user clk, role = User, content = text,
      tool_call_id = None, tool_calls = None, msg_created_at = iso_user clk,
      isStreaming = None\<rparr>"

definition assistantMessage :: "clock \<Rightarrow> message" where
  "assistantMessage clk =
     \<lparr>msg_id = ''temp-assistant-'' @ now_assistant clk, role = Assistant, content = [],
      tool_call_id = None, tool_calls = None, msg_created_at = iso_assistant clk,
      isStreaming = Some True\<rparr>"

text \<open>The first \<^verbatim>\<open>set\<close> of \<^verbatim>\<open>sendMessage\<close>: both provisional messages are appended.\<close>

definition send_optimistic :: "string \<Rightarrow> message \<Rightarrow> message \<Rightarrow> chat_state \<Rightarrow> chat_state" where
  "send_optimistic sessionId um am st =
     st\<lparr>sessionMessages :=
          (sessionMessages st)(sessionId \<mapsto> getSessionMessages st sessionId @ [um, am]),
        isSending := True,
        streamingContent := [],
        currentPhase := Some ''thinking'',
        error := None\<rparr>"

subsection \<open>Frames\<close>

text \<open>
  What the handler reads off one decoded payload: \<^verbatim>\<open>data.event\<close> and the one field of
  \<^verbatim>\<open>data.data\<close> its branch uses, typed as the state slot it is stored in.
  \<^verbatim>\<open>JSON.parse\<close> belongs to the runtime, so the decoding of a payload text is the
  argument \<open>parse\<close> of the functions below; \<open>None\<close> is any throw inside the inner
  \<^verbatim>\<open>try\<close> (a syntax error, or a property read on a missing \<^verbatim>\<open>data.data\<close>), which the
  \<^verbatim>\<open>catch\<close> ignores before any state has changed.
\<close>

datatype frame =
    MessageFrame string
  | PhaseFrame string
  | DoneFrame string
  | ErrorFrame string
  | OtherFrame

type_synonym parser = "string \<Rightarrow> frame option"

text \<open>The two \<^verbatim>\<open>let\<close> variables of the read loop.\<close>

record stream_vars =
  streamedContent :: string
  finalMessageId :: string

definition stream_vars0 :: stream_vars where
  "stream_vars0 = \<lparr>streamedContent = [], finalMessageId = []\<rparr>"

definition is_streaming :: "message \<Rightarrow> bool" where
  "is_streaming m = (isStreaming m = Some True)"

text \<open>
  \<^verbatim>\<open>const lastMessage = messages[messages.length - 1];
  if (lastMessage?.isStreaming) lastMessage.content = streamedContent\<close>
  on the copied array; an empty array has no last element and stays as it is. The
  assignment writes into the message object, which the array of the previous state
  shares; the store holds only the new array from then on, so the state after the
  \<^verbatim>\<open>set\<close> is the one with the updated last element.
\<close>

definition set_last_content :: "string \<Rightarrow> message list \<Rightarrow> message list" where
  "set_last_content c messages =
     (if messages = [] then messages
      else if is_streaming (last messages)
           then butlast messages @ [(last messages)\<lparr>content := c\<rparr>]
           else messages)"

fun apply_frame :: "string \<Rightarrow> frame \<Rightarrow> chat_state \<times> stream_vars \<Rightarrow> chat_state \<times> stream_vars" where
  "apply_frame sessionId (MessageFrame chunk) (st, v) =
     (let sc = streamedContent v @ chunk
      in (st\<lparr>sessionMessages :=
                (sessionMessages st)
                  (sessionId \<mapsto> set_last_content sc (getSessionMessages st sessionId)),
              streamingContent := sc\<rparr>,
          v\<lparr>streamedContent := sc\<rparr>))"
| "apply_frame sessionId (PhaseFrame p) (st, v) = (st\<lparr>currentPhase := Some p\<rparr>, v)"
| "apply_frame sessionId (DoneFrame i) (st, v) = (st, v\<lparr>finalMessageId := i\<rparr>)"
| "apply_frame sessionId (ErrorFrame m) (st, v) = (st\<lparr>error := Some m\<rparr>, v)"
| "apply_frame sessionId OtherFrame (st, v) = (st, v)"

text \<open>\<^verbatim>\<open>if (line.startsWith('data: ')) { try { JSON.parse(line.slice(6)) ... } catch {} }\<close>\<close>

definition handle_line ::
  "parser \<Rightarrow> string \<Rightarrow> string \<Rightarrow> chat_state \<times> stream_vars \<Rightarrow> chat_state \<times> stream_vars" where
  "handle_line parse sessionId line s =
     (if take 6 line = ''data: ''
      then (case parse (drop 6 line) of None \<Rightarrow> s | Some f \<Rightarrow> apply_frame sessionId f s)
      else s)"

text \<open>
  \<^verbatim>\<open>chunk.split('\n')\<close>: the pieces between newlines, one more than there are newlines.
  A character that is no newline joins the first piece of the rest (the rest always has
  one: the last branch of the \<open>case\<close> is never taken).
\<close>

fun split_nl :: "string \<Rightarrow> string list" where
  "split_nl [] = [[]]"
| "split_nl (c # cs) =
     (if c = CHR 0x0A then [] # split_nl cs
      else (case split_nl cs of l # ls \<Rightarrow> (c # l) # ls | [] \<Rightarrow> [[c]]))"

definition handle_lines ::
  "parser \<Rightarrow> string \<Rightarrow> string list \<Rightarrow> chat_state \<times> stream_vars \<Rightarrow> chat_state \<times> stream_vars" where
  "handle_lines parse sessionId ls s = foldl (\<lambda>s l. handle_line parse sessionId l s) s ls"

text \<open>
  One turn of \<^verbatim>\<open>while (true)\<close> for a read that delivered \<open>chunk\<close> (already decoded to
  text: each read is decoded on its own), and the loop over the reads of a body.
\<close>

definition handle_chunk ::
  "parser \<Rightarrow> string \<Rightarrow> string \<Rightarrow> chat_state \<times> stream_vars \<Rightarrow> chat_state \<times> stream_vars" where
  "handle_chunk parse sessionId chunk s = handle_lines parse sessionId (split_nl chunk) s"

definition read_loop ::
  "parser \<Rightarrow> string \<Rightarrow> string list \<Rightarrow> chat_state \<times> stream_vars \<Rightarrow> chat_state \<times> stream_vars" where
  "read_loop parse sessionId chunks s =
     foldl (\<lambda>s c. handle_chunk parse sessionId c s) s chunks"

subsection \<open>Completion and failure\<close>

text \<open>
  \<^verbatim>\<open>if (lastMessage?.isStreaming) { lastMessage.isStreaming = false;
  if (finalMessageId) lastMessage.id = finalMessageId }\<close>
\<close>

definition finalize_last :: "string \<Rightarrow> message list \<Rightarrow> message list" where
  "finalize_last fid messages =
     (if messages = [] then messages
      else if is_streaming (last messages)
           then butlast messages @
                [(if fid \<noteq> [] then (last messages)\<lparr>isStreaming := Some False, msg_id := fid\<rparr>
                  else (last messages)\<lparr>isStreaming := Some False\<rparr>)]
           else messages)"

definition finalize :: "string \<Rightarrow> stream_vars \<Rightarrow> chat_state \<Rightarrow> chat_state" where
  "finalize sessionId v st =
     st\<lparr>sessionMessages :=
          (sessionMessages st)
            (sessionId \<mapsto> finalize_last (finalMessageId v) (getSessionMessages st sessionId)),
        isSending := False,
        currentPhase := None\<rparr>"

text \<open>The outer \<^verbatim>\<open>catch\<close>: \<^verbatim>\<open>filter((m) => !m.id.startsWith('temp-'))\<close>.\<close>

definition is_temp :: "message \<Rightarrow> bool" where
  "is_temp m = (take 5 (msg_id m) = ''temp-'')"

definition send_failed :: "string \<Rightarrow> thrown \<Rightarrow> chat_state \<Rightarrow> chat_state" where
  "send_failed sessionId e st =
     st\<lparr>sessionMessages :=
          (sessionMessages st)
            (sessionId \<mapsto> filter (\<lambda>m. \<not> is_temp m) (getSessionMessages st sessionId)),
        error := Some (err_message ''Failed to send message'' e),
        isSending := False,
        currentPhase := None\<rparr>"

subsection \<open>The whole action\<close>

text \<open>
  What the request does: something before the first read throws (the credential read,
  \<^verbatim>\<open>fetch\<close> itself), the response is not \<^verbatim>\<open>ok\<close>, it has no body reader, or the reader
  delivers some chunks and then either reports the end of the stream or rejects.
\<close>

datatype transport =
    RequestThrows thrown
  | NotOk
  | NoReader
  | Body "string list" "thrown option"

text \<open>
  What the action leaves scheduled when it returns: the \<^verbatim>\<open>setTimeout\<close> of
  \<^verbatim>\<open>generateSessionTitle\<close> and the pending response of \<^verbatim>\<open>fetchSessions\<close>.
\<close>

datatype effect = ScheduleTitle string | RefreshPending

record send_env =
  create_result :: "thrown + session"
  clk :: clock
  transport :: transport

text \<open>
  \<^verbatim>\<open>if (!sessionId)\<close> holds for \<^verbatim>\<open>null\<close> and for the empty string. Then a session is
  created; if that fails the action returns.
\<close>

definition ensure_session :: "send_env \<Rightarrow> chat_state \<Rightarrow> chat_state \<times> string option" where
  "ensure_session env st =
     (case currentSessionId st of
        Some (c # cs) \<Rightarrow> (st, Some (c # cs))
      | _ \<Rightarrow>
        (case createSession_settle (create_result env) (createSession_begin st) of
           (st', Inr s) \<Rightarrow> (st', Some (sess_id s))
         | (st', Inl e) \<Rightarrow> (st', None)))"

definition stream_body ::
  "parser \<Rightarrow> string \<Rightarrow> transport \<Rightarrow> chat_state \<Rightarrow> chat_state \<times> effect list" where
  "stream_body parse sessionId tr st =
     (case tr of
        RequestThrows e \<Rightarrow> (send_failed sessionId e st, [])
      | NotOk \<Rightarrow> (send_failed sessionId (JsError ''Stream request failed'') st, [])
      | NoReader \<Rightarrow> (send_failed sessionId (JsError ''No reader available'') st, [])
      | Body chunks ending \<Rightarrow>
          (case read_loop parse sessionId chunks (st, stream_vars0) of
             (st', v) \<Rightarrow>
               (case ending of
                  Some e \<Rightarrow> (send_failed sessionId e st', [])
                | None \<Rightarrow>
                    (let st'' = finalize sessionId v st'
                     in (fetchSessions_begin st'',
                         (if length (getSessionMessages st'' sessionId) \<le> 2
                          then [ScheduleTitle sessionId] else []) @ [RefreshPending])))))"

definition sendMessage ::
  "parser \<Rightarrow> send_env \<Rightarrow> string \<Rightarrow> chat_state \<Rightarrow> chat_state \<times> effect list" where
  "sendMessage parse env text st =
     (case ensure_session env st of
        (st', None) \<Rightarrow> (st', [])
      | (st', Some sessionId) \<Rightarrow>
          stream_body parse sessionId (transport env)
            (send_optimistic sessionId (userMessage (clk env) text)
               (assistantMessage (clk env)) st'))"

section \<open>Vocabulary of the properties\<close>

text \<open>
  The frame a line carries, if any, and the frames the read loop decodes from a list of
  lines and from a list of read chunks, in order. \<open>apply_frames\<close> applies decoded frames
  one after the other; \<open>read_loop_decoded\<close> below shows that the read loop is
  \<open>apply_frames\<close> on \<open>decode_chunks\<close>, so every state the loop passes through is
  \<open>apply_frames\<close> of a prefix of the decoded frames.
\<close>

definition line_frame :: "parser \<Rightarrow> string \<Rightarrow> frame option" where
  "line_frame parse line = (if take 6 line = ''data: '' then parse (drop 6 line) else None)"

definition decode_lines :: "parser \<Rightarrow> string list \<Rightarrow> frame list" where
  "decode_lines parse ls = List.map_filter (line_frame parse) ls"

definition decode_chunks :: "parser \<Rightarrow> string list \<Rightarrow> frame list" where
  "decode_chunks parse chunks = decode_lines parse (concat (map split_nl chunks))"

definition apply_frames ::
  "string \<Rightarrow> frame list \<Rightarrow> chat_state \<times> stream_vars \<Rightarrow> chat_state \<times> stream_vars" where
  "apply_frames sessionId fs s = foldl (\<lambda>s f. apply_frame sessionId f s) s fs"

text \<open>The content fragment an event carries: that of a \<^verbatim>\<open>message\<close> event, else nothing.\<close>

fun frame_chunk :: "frame \<Rightarrow> string" where
  "frame_chunk (MessageFrame chunk) = chunk"
| "frame_chunk _ = []"

text \<open>A message list without a streaming element.\<close>

definition none_streaming :: "message list \<Rightarrow> bool" where
  "none_streaming ms = list_all (\<lambda>m. \<not> is_streaming m) ms"

text \<open>
  A cached sequence in which exactly one element is streaming, and it is the last one.
\<close>

definition one_streaming_last :: "message list \<Rightarrow> bool" where
  "one_streaming_last ms =
     (ms \<noteq> [] \<and> is_streaming (last ms) \<and> length (filter is_streaming ms) = 1)"

text \<open>A store none of whose cached sequences has a streaming element.\<close>

definition quiescent :: "chat_state \<Rightarrow> bool" where
  "quiescent st = (\<forall>ms \<in> ran (sessionMessages st). none_streaming ms)"

text \<open>
  A step taken while the stream of a session runs: an event of the stream itself, or any
  other change of the store (the part of another action that runs between two reads).
  \<open>keeps_entry\<close> holds for a step that leaves the cache entry of the session as it is.
\<close>

datatype step = Event frame | Foreign "chat_state \<Rightarrow> chat_state"

fun run_step :: "string \<Rightarrow> step \<Rightarrow> chat_state \<times> stream_vars \<Rightarrow> chat_state \<times> stream_vars" where
  "run_step sessionId (Event f) s = apply_frame sessionId f s"
| "run_step sessionId (Foreign g) (st, v) = (g st, v)"

definition run_steps ::
  "string \<Rightarrow> step list \<Rightarrow> chat_state \<times> stream_vars \<Rightarrow> chat_state \<times> stream_vars" where
  "run_steps sessionId steps s = foldl (\<lambda>s x. run_step sessionId x s) s steps"

fun keeps_entry :: "string \<Rightarrow> step \<Rightarrow> bool" where
  "keeps_entry sessionId (Event f) = True"
| "keeps_entry sessionId (Foreign g) =
     (\<forall>st. sessionMessages (g st) sessionId = sessionMessages st sessionId)"

text \<open>A chunk that ends where a line ends (or is empty).\<close>

definition line_aligned :: "string \<Rightarrow> bool" where
  "line_aligned chunk = (chunk = [] \<or> last chunk = CHR 0x0A)"

text \<open>
  A call of one of the three registry actions with the outcome of its remote call, and a
  sequence of such calls, each run to completion before the next.
\<close>

datatype registry_op =
    TogglePin string "thrown + session"
  | Archive string "thrown + unit"
  | Delete string "thrown + unit"

fun apply_op :: "registry_op \<Rightarrow> chat_state \<Rightarrow> chat_state" where
  "apply_op (TogglePin sid r) st = togglePinSession sid r st"
| "apply_op (Archive sid r) st = archiveSession sid r st"
| "apply_op (Delete sid r) st = deleteSession sid r st"

definition apply_ops :: "registry_op list \<Rightarrow> chat_state \<Rightarrow> chat_state" where
  "apply_ops ops st = foldl (\<lambda>s op. apply_op op s) st ops"

text \<open>The ids whose archive or delete call succeeded, and whether a call is a successful pin.\<close>

fun removed_ids :: "registry_op list \<Rightarrow> string list" where
  "removed_ids [] = []"
| "removed_ids (Archive sid (Inr u) # ops) = sid # removed_ids ops"
| "removed_ids (Delete sid (Inr u) # ops) = sid # removed_ids ops"
| "removed_ids (op # ops) = removed_ids ops"

fun pin_succeeded :: "registry_op \<Rightarrow> bool" where
  "pin_succeeded (TogglePin sid (Inr r)) = True"
| "pin_succeeded _ = False"

text \<open>
  The order of the session list: a pinned session stands before an unpinned one, and
  within the pinned and within the unpinned ones a later \<^verbatim>\<open>updated_at\<close> stands first.
\<close>

definition precedes :: "session \<Rightarrow> session \<Rightarrow> bool" where
  "precedes a b =
     ((is_pinned a \<and> \<not> is_pinned b)
      \<or> (is_pinned a = is_pinned b \<and> updated_at b \<le> updated_at a))"

definition pin_ordered :: "session list \<Rightarrow> bool" where
  "pin_ordered ss = sorted_wrt precedes ss"

section \<open>Example stores\<close>

definition ex_session :: "string \<Rightarrow> bool \<Rightarrow> int \<Rightarrow> session" where
  "ex_session i p t =
     \<lparr>sess_id = i, title = ''New Chat'', description = None, model_name = ''gpt-4'',
      is_archived = False, is_pinned = p, tags = [], total_tokens_used = 0,
      created_at = t, updated_at = t, message_count = None,
      last_message_preview = None, sess_messages = None\<rparr>"

definition ex_message :: "string \<Rightarrow> role \<Rightarrow> string \<Rightarrow> message" where
  "ex_message i r c =
     \<lparr>msg_id = i, role = r, content = c, tool_call_id = None, tool_calls = None,
      msg_created_at = ''2024-01-01T00:00:00.000Z'', isStreaming = None\<rparr>"

definition no_fields :: session_fields where
  "no_fields =
     \<lparr>f_id = None, f_title = None, f_description = Absent, f_model_name = None,
      f_is_archived = None, f_is_pinned = None, f_tags = None,
      f_total_tokens_used = None, f_created_at = None, f_updated_at = None,
      f_message_count = Absent, f_last_message_preview = Absent\<rparr>"

definition ex_state :: chat_state where
  "ex_state =
     initial_state
       \<lparr>sessions := [ex_session ''a'' False 20, ex_session ''b'' False 10],
        currentSessionId := Some ''a'',
        sessionMessages :=
          [''a'' \<mapsto> [ex_message ''m-1'' User ''hi''],
           ''b'' \<mapsto> [ex_message ''m-2'' User ''yo'']]\<rparr>"

text \<open>
  A store whose entry \<open>b\<close> has a description, and a detail response for \<open>b\<close> that renames
  it, carries \<^verbatim>\<open>description: null\<close>, pins it, updates counters and time, and brings one
  message; it has no \<^verbatim>\<open>id\<close>, \<^verbatim>\<open>model_name\<close>, \<^verbatim>\<open>is_archived\<close>, \<^verbatim>\<open>tags\<close> or
  \<^verbatim>\<open>created_at\<close>.
\<close>

definition detail_state :: chat_state where
  "detail_state =
     ex_state
       \<lparr>sessions :=
          [ex_session ''a'' False 20,
           (ex_session ''b'' False 10)\<lparr>description := Some ''An old description''\<rparr>]\<rparr>"

definition detail_response :: session_detail where
  "detail_response =
     \<lparr>d_fields =
        no_fields
          \<lparr>f_title := Some ''Renamed'', f_description := Null, f_is_pinned := Some True,
           f_total_tokens_used := Some 12, f_updated_at := Some 99,
           f_message_count := Present 1, f_last_message_preview := Present ''fresh''\<rparr>,
      d_messages = Present [ex_message ''m-9'' Assistant ''fresh'']\<rparr>"

text \<open>
  Payload texts of the shape the handler reads (an \<^verbatim>\<open>event\<close> name and a \<^verbatim>\<open>data\<close>
  object), and the decoder used in the examples: the table lists, for each payload text
  of the examples, what \<^verbatim>\<open>JSON.parse\<close> and the handler's field reads yield on it. On
  any other text it answers \<open>None\<close>; the only other texts the examples hand to it are
  cut-off payloads, on which \<^verbatim>\<open>JSON.parse\<close> throws.
\<close>

definition payload_message :: "string \<Rightarrow> string" where
  \<open>payload_message c = ''{"event": "message", "data": {"chunk": "'' @ c @ ''"}}''\<close>

definition payload_phase :: "string \<Rightarrow> string" where
  \<open>payload_phase p = ''{"event": "phase", "data": {"phase": "'' @ p @ ''"}}''\<close>

definition payload_done :: "string \<Rightarrow> string" where
  \<open>payload_done i = ''{"event": "done", "data": {"assistant_message_id": "'' @ i @ ''"}}''\<close>

definition example_table :: "(string \<times> frame) list" where
  "example_table =
     [(payload_message ''H'', MessageFrame ''H''),
      (payload_message ''He'', MessageFrame ''He''),
      (payload_message ''Hello'', MessageFrame ''Hello''),
      (payload_phase ''responding'', PhaseFrame ''responding''),
      (payload_done ''m-42'', DoneFrame ''m-42'')]"

definition example_parse :: parser where
  "example_parse = map_of example_table"

text \<open>A frame on the wire: the data prefix, the payload, a blank line.\<close>

definition sse :: "string \<Rightarrow> string" where
  "sse payload = ''data: '' @ payload @ [CHR 0x0A, CHR 0x0A]"

definition clock1 :: clock where
  "clock1 = \<lparr>now_user = ''1700000000000'', iso_user = ''2023-11-14T22:13:20.000Z'',
             now_assistant = ''1700000000000'', iso_assistant = ''2023-11-14T22:13:20.000Z''\<rparr>"

definition clock2 :: clock where
  "clock2 = \<lparr>now_user = ''1700000060000'', iso_user = ''2023-11-14T22:14:20.000Z'',
             now_assistant = ''1700000060000'', iso_assistant = ''2023-11-14T22:14:20.000Z''\<rparr>"

text \<open>A store whose current session \<open>s1\<close> has no messages yet.\<close>

definition fresh_state :: chat_state where
  "fresh_state =
     initial_state
       \<lparr>sessions := [ex_session ''s1'' False 10],
        currentSessionId := Some ''s1'',
        sessionMessages := [''s1'' \<mapsto> []]\<rparr>"

text \<open>
  The reads of the scenario (three \<^verbatim>\<open>message\<close> events, one \<^verbatim>\<open>phase\<close>, one
  \<^verbatim>\<open>done\<close>, then the end of the stream), and a send whose reader rejects after one
  \<^verbatim>\<open>message\<close> event.
\<close>

definition scenario_env :: send_env where
  "scenario_env =
     \<lparr>create_result = Inl NonError, clk = clock1,
      transport =
        Body [sse (payload_message ''H''), sse (payload_message ''He''),
              sse (payload_message ''Hello''), sse (payload_phase ''responding''),
              sse (payload_done ''m-42'')] None\<rparr>"

definition failing_env :: send_env where
  "failing_env =
     \<lparr>create_result = Inl NonError, clk = clock2,
      transport = Body [sse (payload_message ''H'')] (Some (JsError ''network error''))\<rparr>"

definition streaming_state :: chat_state where
  "streaming_state =
     send_optimistic ''s1'' (userMessage clock1 ''hello'') (assistantMessage clock1) fresh_state"

text \<open>
  A stream on session \<open>a\<close> of \<open>ex_state\<close>, which has a message already, with two actions
  on session \<open>b\<close> settling between its events; and three runs in which another action
  writes the entry of the streaming session \<open>s1\<close>: a delete, a refresh, a second send.
\<close>

definition undisturbed_steps :: "step list" where
  "undisturbed_steps =
     [Event (MessageFrame ''H''),
      Foreign (archiveSession ''b'' (Inr ())),
      Foreign (selectSession_settle ''b''
                 (Inr \<lparr>d_fields = no_fields, d_messages = Present []\<rparr>)),
      Event (PhaseFrame ''responding''),
      Event (MessageFrame ''He'')]"

definition delete_steps :: "step list" where
  "delete_steps =
     [Event (MessageFrame ''H''),
      Foreign (deleteSession ''s1'' (Inr ())),
      Event (MessageFrame ''He'')]"

definition refresh_steps :: "step list" where
  "refresh_steps =
     [Event (MessageFrame ''H''),
      Foreign (selectSession_settle ''s1''
                 (Inr \<lparr>d_fields = no_fields,
                       d_messages = Present [ex_message ''m-1'' User ''hello'']\<rparr>)),
      Event (MessageFrame ''He'')]"

definition second_send_steps :: "step list" where
  "second_send_steps =
     [Event (MessageFrame ''H''),
      Foreign (send_optimistic ''s1'' (userMessage clock2 ''again'') (assistantMessage clock2)),
      Event (MessageFrame ''He'')]"

text \<open>
  Two frames, as lines; the same bytes delivered in one read; and one frame delivered in
  two reads, cut inside the payload.
\<close>

definition whole_frames :: "string list" where
  "whole_frames = [''data: '' @ payload_message ''H'', [], ''data: '' @ payload_message ''He'', []]"

definition aligned_reads :: "string list" where
  "aligned_reads = [sse (payload_message ''H'') @ sse (payload_message ''He'')]"

definition split_reads :: "string list" where
  \<open>split_reads =
     [''data: {"event": "message", "da'', ''ta": {"chunk": "H"}}\<newline>\<newline>'']\<close>

text \<open>
  An unsorted session list, and the list \<^verbatim>\<open>createSession\<close> leaves when a pinned session
  exists: the new, unpinned session is put first.
\<close>

definition registry_state :: chat_state where
  "registry_state =
     initial_state
       \<lparr>sessions := [ex_session ''b'' False 10, ex_session ''a'' False 20,
                     ex_session ''c'' False 5]\<rparr>"

definition created_state :: chat_state where
  "created_state =
     fst (createSession_settle (Inr (ex_session ''new'' False 30))
            (initial_state
               \<lparr>sessions := [ex_session ''old'' True 10, ex_session ''other'' False 5]\<rparr>))"

lemmas send_defs = sendMessage_def ensure_session_def stream_body_def read_loop_def
  handle_chunk_def handle_lines_def handle_line_def send_optimistic_def userMessage_def
  assistantMessage_def stream_vars0_def getSessionMessages_def set_last_content_def
  is_streaming_def finalize_def finalize_last_def send_failed_def is_temp_def
  fetchSessions_begin_def createSession_begin_def Let_def

section \<open>Verified properties\<close>

subsection \<open>Registry and cache actions\<close>

text \<open>
  \<^bold>\<open>C8.\<close> A failing \<^verbatim>\<open>generateSessionTitle\<close> clears the title-generation flag and
  changes nothing else: whatever state the store is in when the call settles, every field
  but the flag is the same afterwards, so the error slot, the session list and the message
  caches are untouched; the call as a whole (flag raised, then the failure) leaves them as
  they were. On success the flag is cleared, each entry with the given id gets the
  returned \<^verbatim>\<open>title\<close> and \<^verbatim>\<open>description\<close> and is otherwise the same, every other entry
  and every other field of the store is unchanged.
\<close>
theorem generateSessionTitle_failure_silent:
  "(let r = generateSessionTitle_settle sid (Inl e) st
    in \<not> isGeneratingTitle r \<and> r\<lparr>isGeneratingTitle := isGeneratingTitle st\<rparr> = st)
   \<and> (let r = generateSessionTitle_settle sid (Inl e) (generateSessionTitle_begin st)
      in \<not> isGeneratingTitle r \<and> error r = error st \<and> sessions r = sessions st
         \<and> sessionMessages r = sessionMessages st
         \<and> r\<lparr>isGeneratingTitle := isGeneratingTitle st\<rparr> = st)
   \<and> (let r = generateSessionTitle_settle sid (Inr resp) st
      in \<not> isGeneratingTitle r
         \<and> list_all2
             (\<lambda>s s'. s' = (if sess_id s = sid
                            then s\<lparr>title := r_title resp, description := r_description resp\<rparr>
                            else s))
             (sessions st) (sessions r)
         \<and> r\<lparr>sessions := sessions st, isGeneratingTitle := isGeneratingTitle st\<rparr> = st)"
  by (simp add: generateSessionTitle_begin_def list_all2_map2 list.rel_refl)

theorem generateSessionTitle_failure_silent_witness:
  "generateSessionTitle_settle ''a'' (Inl (JsError ''timeout''))
       (generateSessionTitle_begin (ex_state\<lparr>error := Some ''earlier''\<rparr>))
     = ex_state\<lparr>error := Some ''earlier''\<rparr>
   \<and> sessions (generateSessionTitle_settle ''a''
         (Inr \<lparr>r_title = ''Greeting'', r_description = Some ''A hello''\<rparr>) ex_state)
     = [(ex_session ''a'' False 20)\<lparr>title := ''Greeting'', description := Some ''A hello''\<rparr>,
        ex_session ''b'' False 10]"
  using generateSessionTitle_failure_silent
    [of "''a''" "JsError ''timeout''" "ex_state\<lparr>error := Some ''earlier''\<rparr>"]
  by (simp add: ex_state_def initial_state_def generateSessionTitle_begin_def ex_session_def)

text \<open>
  \<^bold>\<open>C9.\<close> When the refresh of \<^verbatim>\<open>selectSession(a)\<close> resolves successfully, the current
  pointer becomes \<open>a\<close>, in whatever state the store is by then. In particular, if a cached
  session \<open>b\<close> was selected while the fetch for \<open>a\<close> was in flight (so the pointer was
  \<open>b\<close>), the resolution puts the pointer back on \<open>a\<close>.
\<close>
theorem selectSession_settle_reverts_pointer:
  assumes "sessionMessages st b \<noteq> None"
  shows "currentSessionId (selectSession_begin b (selectSession_begin a st)) = Some b
     \<and> currentSessionId
         (selectSession_settle a (Inr resp) (selectSession_begin b (selectSession_begin a st)))
       = Some a
     \<and> (\<forall>st'. currentSessionId (selectSession_settle a (Inr resp) st') = Some a)"
  using assms by (auto simp add: selectSession_begin_def Let_def)

theorem selectSession_settle_reverts_pointer_witness:
  "sessionMessages ex_state ''b'' \<noteq> None
   \<and> currentSessionId (selectSession_begin ''b'' (selectSession_begin ''a'' ex_state))
       = Some ''b''
   \<and> currentSessionId
       (selectSession_settle ''a'' (Inr \<lparr>d_fields = no_fields, d_messages = Absent\<rparr>)
          (selectSession_begin ''b'' (selectSession_begin ''a'' ex_state)))
       = Some ''a''"
proof -
  have h: "sessionMessages ex_state ''b'' \<noteq> None"
    by (simp add: ex_state_def initial_state_def)
  show ?thesis
    using h selectSession_settle_reverts_pointer [OF h, of "''a''"] by simp
qed

text \<open>
  \<^bold>\<open>C10.\<close> A successful \<^verbatim>\<open>archiveSession(id)\<close> removes the entries with that id from the
  list and clears the current pointer if it was \<open>id\<close>; the whole message cache, the entry
  of \<open>id\<close> included, and the error slot (indeed every other field) stay as they were. A
  successful \<^verbatim>\<open>deleteSession(id)\<close> removes the cache entry of \<open>id\<close> and leaves the
  entries of the other sessions.
\<close>
theorem archiveSession_keeps_cache:
  "(let r = archiveSession sid (Inr u) st
    in sessions r = filter (\<lambda>s. sess_id s \<noteq> sid) (sessions st)
       \<and> currentSessionId r
           = (if currentSessionId st = Some sid then None else currentSessionId st)
       \<and> sessionMessages r = sessionMessages st
       \<and> error r = error st
       \<and> r\<lparr>sessions := sessions st, currentSessionId := currentSessionId st\<rparr> = st)
   \<and> (let r = deleteSession sid (Inr u) st
      in sessionMessages r sid = None
         \<and> (\<forall>k. k \<noteq> sid \<longrightarrow> sessionMessages r k = sessionMessages st k))"
  by simp

theorem archiveSession_keeps_cache_witness:
  "sessionMessages (archiveSession ''a'' (Inr ()) ex_state) ''a''
     = Some [ex_message ''m-1'' User ''hi'']
   \<and> map sess_id (sessions (archiveSession ''a'' (Inr ()) ex_state)) = [''b'']
   \<and> currentSessionId (archiveSession ''a'' (Inr ()) ex_state) = None
   \<and> sessionMessages (deleteSession ''a'' (Inr ()) ex_state) ''a'' = None
   \<and> sessionMessages (deleteSession ''a'' (Inr ()) ex_state) ''b''
     = Some [ex_message ''m-2'' User ''yo'']"
  using archiveSession_keeps_cache [of "''a''" "()" ex_state]
  by (simp add: ex_state_def initial_state_def ex_session_def)

text \<open>
  \<^bold>\<open>C7.\<close> If messages for \<open>sid\<close> are cached, \<^verbatim>\<open>selectSession(sid)\<close> makes \<open>sid\<close> current
  before the request is awaited, without touching the cache. When the refresh resolves,
  in whatever state the store is by then (the current pointer may have moved), the cache
  entry of \<open>sid\<close> is the fetched message list (empty if the response has none), every
  other cache entry is unchanged, and the session list is merged entry by entry: an entry
  with another id is unchanged; in an entry with id \<open>sid\<close> every field the response
  carries has the response's value (none, if the response carries \<^verbatim>\<open>null\<close>) and every
  field the response lacks keeps its value.
\<close>
theorem selectSession_cached_then_refresh:
  assumes "sessionMessages st sid \<noteq> None"
  shows "currentSessionId (selectSession_begin sid st) = Some sid
     \<and> sessionMessages (selectSession_begin sid st) = sessionMessages st
     \<and> (\<forall>st'. let r = selectSession_settle sid (Inr resp) st'; f = d_fields resp
              in sessionMessages r sid
                   = Some (case d_messages resp of Present ms \<Rightarrow> ms | Absent \<Rightarrow> [] | Null \<Rightarrow> [])
                 \<and> (\<forall>k. k \<noteq> sid \<longrightarrow> sessionMessages r k = sessionMessages st' k)
                 \<and> list_all2
                     (\<lambda>s s'.
                        if sess_id s \<noteq> sid then s' = s
                        else sess_id s' = (case f_id f of None \<Rightarrow> sess_id s | Some v \<Rightarrow> v)
                           \<and> title s' = (case f_title f of None \<Rightarrow> title s | Some v \<Rightarrow> v)
                           \<and> description s'
                               = (case f_description f of
                                    Absent \<Rightarrow> description s | Null \<Rightarrow> None
                                  | Present v \<Rightarrow> Some v)
                           \<and> model_name s'
                               = (case f_model_name f of None \<Rightarrow> model_name s | Some v \<Rightarrow> v)
                           \<and> is_archived s'
                               = (case f_is_archived f of None \<Rightarrow> is_archived s | Some v \<Rightarrow> v)
                           \<and> is_pinned s'
                               = (case f_is_pinned f of None \<Rightarrow> is_pinned s | Some v \<Rightarrow> v)
                           \<and> tags s' = (case f_tags f of None \<Rightarrow> tags s | Some v \<Rightarrow> v)
                           \<and> total_tokens_used s'
                               = (case f_total_tokens_used f of
                                    None \<Rightarrow> total_tokens_used s | Some v \<Rightarrow> v)
                           \<and> created_at s'
                               = (case f_created_at f of None \<Rightarrow> created_at s | Some v \<Rightarrow> v)
                           \<and> updated_at s'
                               = (case f_updated_at f of None \<Rightarrow> updated_at s | Some v \<Rightarrow> v)
                           \<and> message_count s'
                               = (case f_message_count f of
                                    Absent \<Rightarrow> message_count s | Null \<Rightarrow> None
                                  | Present v \<Rightarrow> Some v)
                           \<and> last_message_preview s'
                               = (case f_last_message_preview f of
                                    Absent \<Rightarrow> last_message_preview s | Null \<Rightarrow> None
                                  | Present v \<Rightarrow> Some v)
                           \<and> sess_messages s'
                               = (case d_messages resp of
                                    Absent \<Rightarrow> sess_messages s | Null \<Rightarrow> None
                                  | Present v \<Rightarrow> Some v))
                     (sessions st') (sessions r))"
proof -
  have first: "currentSessionId (selectSession_begin sid st) = Some sid
      \<and> sessionMessages (selectSession_begin sid st) = sessionMessages st"
    using assms by (simp add: selectSession_begin_def Let_def)
  have cache: "sessionMessages (selectSession_settle sid (Inr resp) st') sid
        = Some (case d_messages resp of Present ms \<Rightarrow> ms | Absent \<Rightarrow> [] | Null \<Rightarrow> [])" for st'
    by (cases "d_messages resp") simp_all
  have others: "\<forall>k. k \<noteq> sid \<longrightarrow>
        sessionMessages (selectSession_settle sid (Inr resp) st') k = sessionMessages st' k" for st'
    by simp
  have ov: "override p old = (case p of Absent \<Rightarrow> old | Null \<Rightarrow> None | Present v \<Rightarrow> Some v)"
    for p :: "'a json_prop" and old
    by (cases p) simp_all
  have entries: "list_all2
       (\<lambda>s s'.
          if sess_id s \<noteq> sid then s' = s
          else sess_id s' = (case f_id (d_fields resp) of None \<Rightarrow> sess_id s | Some v \<Rightarrow> v)
             \<and> title s' = (case f_title (d_fields resp) of None \<Rightarrow> title s | Some v \<Rightarrow> v)
             \<and> description s'
                 = (case f_description (d_fields resp) of
                      Absent \<Rightarrow> description s | Null \<Rightarrow> None | Present v \<Rightarrow> Some v)
             \<and> model_name s'
                 = (case f_model_name (d_fields resp) of None \<Rightarrow> model_name s | Some v \<Rightarrow> v)
             \<and> is_archived s'
                 = (case f_is_archived (d_fields resp) of None \<Rightarrow> is_archived s | Some v \<Rightarrow> v)
             \<and> is_pinned s'
                 = (case f_is_pinned (d_fields resp) of None \<Rightarrow> is_pinned s | Some v \<Rightarrow> v)
             \<and> tags s' = (case f_tags (d_fields resp) of None \<Rightarrow> tags s | Some v \<Rightarrow> v)
             \<and> total_tokens_used s'
                 = (case f_total_tokens_used (d_fields resp) of
                      None \<Rightarrow> total_tokens_used s | Some v \<Rightarrow> v)
             \<and> created_at s'
                 = (case f_created_at (d_fields resp) of None \<Rightarrow> created_at s | Some v \<Rightarrow> v)
             \<and> updated_at s'
                 = (case f_updated_at (d_fields resp) of None \<Rightarrow> updated_at s | Some v \<Rightarrow> v)
             \<and> message_count s'
                 = (case f_message_count (d_fields resp) of
                      Absent \<Rightarrow> message_count s | Null \<Rightarrow> None | Present v \<Rightarrow> Some v)
             \<and> last_message_preview s'
                 = (case f_last_message_preview (d_fields resp) of
                      Absent \<Rightarrow> last_message_preview s | Null \<Rightarrow> None | Present v \<Rightarrow> Some v)
             \<and> sess_messages s'
                 = (case d_messages resp of
                      Absent \<Rightarrow> sess_messages s | Null \<Rightarrow> None | Present v \<Rightarrow> Some v))
       (sessions st') (sessions (selectSession_settle sid (Inr resp) st'))" for st'
    by (auto simp add: list_all2_map2 list_all2_same spread_detail_def spread_def or_else_def ov
        split: option.splits)
  show ?thesis
    using first cache others entries by (simp add: Let_def)
qed

theorem selectSession_cached_then_refresh_witness:
  "sessionMessages detail_state ''b'' \<noteq> None
   \<and> currentSessionId (selectSession_begin ''b'' detail_state) = Some ''b''
   \<and> (let r = selectSession_settle ''b'' (Inr detail_response)
                (selectSession_begin ''a'' (selectSession_begin ''b'' detail_state))
      in sessionMessages r ''b'' = Some [ex_message ''m-9'' Assistant ''fresh'']
         \<and> sessionMessages r ''a'' = Some [ex_message ''m-1'' User ''hi'']
         \<and> sessions r
             = [ex_session ''a'' False 20,
                \<lparr>sess_id = ''b'', title = ''Renamed'', description = None,
                 model_name = ''gpt-4'', is_archived = False, is_pinned = True, tags = [],
                 total_tokens_used = 12, created_at = 10, updated_at = 99,
                 message_count = Some 1, last_message_preview = Some ''fresh'',
                 sess_messages = Some [ex_message ''m-9'' Assistant ''fresh'']\<rparr>])"
proof -
  have h: "sessionMessages detail_state ''b'' \<noteq> None"
    by (simp add: detail_state_def ex_state_def initial_state_def)
  show ?thesis
    using h selectSession_cached_then_refresh [OF h, of detail_response]
    by (simp add: detail_state_def detail_response_def ex_state_def initial_state_def
        selectSession_begin_def ex_session_def spread_detail_def spread_def no_fields_def
        or_else_def)
qed

subsection \<open>The read loop as a run over decoded frames\<close>

lemma handle_line_frame:
  "handle_line parse sid l s = (case line_frame parse l of None \<Rightarrow> s | Some f \<Rightarrow> apply_frame sid f s)"
  by (simp add: handle_line_def line_frame_def)

lemma decode_lines_Cons:
  "decode_lines parse (l # ls) =
     (case line_frame parse l of None \<Rightarrow> decode_lines parse ls
      | Some f \<Rightarrow> f # decode_lines parse ls)"
  by (simp add: decode_lines_def map_filter_simps split: option.splits)

lemma decode_lines_Nil: "decode_lines parse [] = []"
  by (simp add: decode_lines_def map_filter_simps)

lemma decode_lines_append:
  "decode_lines parse (xs @ ys) = decode_lines parse xs @ decode_lines parse ys"
  by (simp add: decode_lines_def map_filter_def)

lemma apply_frames_append:
  "apply_frames sid (fs @ gs) s = apply_frames sid gs (apply_frames sid fs s)"
  by (simp add: apply_frames_def)

lemma handle_lines_decoded:
  "handle_lines parse sid ls s = apply_frames sid (decode_lines parse ls) s"
proof (induction ls arbitrary: s)
  case Nil
  show ?case by (simp add: handle_lines_def apply_frames_def decode_lines_Nil)
next
  case (Cons l ls)
  have "handle_lines parse sid (l # ls) s = handle_lines parse sid ls (handle_line parse sid l s)"
    by (simp add: handle_lines_def)
  also have "\<dots> = apply_frames sid (decode_lines parse ls) (handle_line parse sid l s)"
    by (rule Cons.IH)
  also have "\<dots> = apply_frames sid (decode_lines parse (l # ls)) s"
    by (simp add: handle_line_frame decode_lines_Cons apply_frames_def split: option.splits)
  finally show ?case .
qed

lemma read_loop_decoded:
  "read_loop parse sid chunks s = apply_frames sid (decode_chunks parse chunks) s"
proof (induction chunks arbitrary: s)
  case Nil
  show ?case
    by (simp add: read_loop_def decode_chunks_def decode_lines_Nil apply_frames_def)
next
  case (Cons c cs)
  have "read_loop parse sid (c # cs) s = read_loop parse sid cs (handle_chunk parse sid c s)"
    by (simp add: read_loop_def)
  also have "\<dots> = apply_frames sid (decode_chunks parse cs)
                     (apply_frames sid (decode_lines parse (split_nl c)) s)"
    by (simp add: Cons.IH handle_chunk_def handle_lines_decoded)
  also have "\<dots> = apply_frames sid (decode_chunks parse (c # cs)) s"
    by (simp add: decode_chunks_def decode_lines_append apply_frames_append)
  finally show ?case .
qed

subsection \<open>The state of the store during a stream\<close>

text \<open>
  After the optimistic append, and after any number of frames, the cache entry of the
  session is the pre-send sequence, the user message, and the placeholder with the buffer
  as its content; the other entries are untouched.
\<close>

lemma set_last_content_snoc:
  "is_streaming a \<Longrightarrow> set_last_content c (pre @ [a]) = pre @ [a\<lparr>content := c\<rparr>]"
  by (simp add: set_last_content_def)

lemma apply_frame_stream:
  assumes "getSessionMessages s sid = pre @ [a]" and "is_streaming a"
    and "content a = streamedContent v" and "streamingContent s = streamedContent v"
  shows "\<exists>s' v'. apply_frame sid f (s, v) = (s', v')
           \<and> streamedContent v' = streamedContent v @ frame_chunk f
           \<and> getSessionMessages s' sid = pre @ [a\<lparr>content := streamedContent v'\<rparr>]
           \<and> streamingContent s' = streamedContent v'
           \<and> (\<forall>k. k \<noteq> sid \<longrightarrow> sessionMessages s' k = sessionMessages s k)"
proof (cases f)
  case (MessageFrame chunk)
  then show ?thesis
    using assms
    by (simp add: Let_def set_last_content_snoc getSessionMessages_def)
next
  case (PhaseFrame p)
  then show ?thesis using assms by (simp add: getSessionMessages_def)
next
  case (DoneFrame i)
  then show ?thesis using assms by (simp add: getSessionMessages_def)
next
  case (ErrorFrame m)
  then show ?thesis using assms by (simp add: getSessionMessages_def)
next
  case OtherFrame
  then show ?thesis using assms by (simp add: getSessionMessages_def)
qed

lemma apply_frames_stream:
  assumes "getSessionMessages s sid = pre @ [a]" and "is_streaming a"
    and "content a = streamedContent v" and "streamingContent s = streamedContent v"
  shows "\<exists>s' v'. apply_frames sid fs (s, v) = (s', v')
           \<and> streamedContent v' = streamedContent v @ concat (map frame_chunk fs)
           \<and> getSessionMessages s' sid = pre @ [a\<lparr>content := streamedContent v'\<rparr>]
           \<and> streamingContent s' = streamedContent v'
           \<and> (\<forall>k. k \<noteq> sid \<longrightarrow> sessionMessages s' k = sessionMessages s k)"
  using assms
proof (induction fs arbitrary: s v a)
  case Nil
  then show ?case by (simp add: apply_frames_def)
next
  case (Cons f fs)
  from apply_frame_stream [OF Cons.prems, of f]
  obtain s1 v1 where step: "apply_frame sid f (s, v) = (s1, v1)"
    and buf: "streamedContent v1 = streamedContent v @ frame_chunk f"
    and msgs: "getSessionMessages s1 sid = pre @ [a\<lparr>content := streamedContent v1\<rparr>]"
    and sc: "streamingContent s1 = streamedContent v1"
    and others: "\<forall>k. k \<noteq> sid \<longrightarrow> sessionMessages s1 k = sessionMessages s k"
    by blast
  have str: "is_streaming (a\<lparr>content := streamedContent v1\<rparr>)"
    using Cons.prems(2) by (simp add: is_streaming_def)
  have cont: "content (a\<lparr>content := streamedContent v1\<rparr>) = streamedContent v1"
    by simp
  from Cons.IH [OF msgs str cont sc]
  obtain s' v' where rest: "apply_frames sid fs (s1, v1) = (s', v')"
    and buf': "streamedContent v' = streamedContent v1 @ concat (map frame_chunk fs)"
    and msgs': "getSessionMessages s' sid
                  = pre @ [a\<lparr>content := streamedContent v1\<rparr>\<lparr>content := streamedContent v'\<rparr>]"
    and sc': "streamingContent s' = streamedContent v'"
    and others': "\<forall>k. k \<noteq> sid \<longrightarrow> sessionMessages s' k = sessionMessages s1 k"
    by blast
  have "apply_frames sid (f # fs) (s, v) = (s', v')"
    using step rest by (simp add: apply_frames_def)
  moreover have "streamedContent v' = streamedContent v @ concat (map frame_chunk (f # fs))"
    using buf buf' by simp
  moreover have "getSessionMessages s' sid = pre @ [a\<lparr>content := streamedContent v'\<rparr>]"
    using msgs' by simp
  moreover have "\<forall>k. k \<noteq> sid \<longrightarrow> sessionMessages s' k = sessionMessages s k"
    using others others' by simp
  ultimately show ?case using sc' by blast
qed

lemma send_optimistic_messages:
  "getSessionMessages (send_optimistic sid um am st) sid = (getSessionMessages st sid @ [um]) @ [am]"
  by (simp add: send_optimistic_def getSessionMessages_def)

lemma send_optimistic_others:
  "k \<noteq> sid \<Longrightarrow> sessionMessages (send_optimistic sid um am st) k = sessionMessages st k"
  by (simp add: send_optimistic_def)

lemma stream_after_send:
  "\<exists>s' v'. apply_frames sid fs
              (send_optimistic sid um (assistantMessage ck) st, stream_vars0) = (s', v')
     \<and> streamedContent v' = concat (map frame_chunk fs)
     \<and> getSessionMessages s' sid
         = getSessionMessages st sid @ [um, (assistantMessage ck)\<lparr>content := streamedContent v'\<rparr>]
     \<and> streamingContent s' = streamedContent v'
     \<and> (\<forall>k. k \<noteq> sid \<longrightarrow> sessionMessages s' k = sessionMessages st k)"
proof -
  have a: "is_streaming (assistantMessage ck)"
    by (simp add: is_streaming_def assistantMessage_def)
  have b: "content (assistantMessage ck) = streamedContent stream_vars0"
    by (simp add: assistantMessage_def stream_vars0_def)
  have c: "streamingContent (send_optimistic sid um (assistantMessage ck) st)
             = streamedContent stream_vars0"
    by (simp add: send_optimistic_def stream_vars0_def)
  from apply_frames_stream [OF send_optimistic_messages a b c, of fs]
  show ?thesis
    by (auto simp add: stream_vars0_def send_optimistic_others)
qed





lemma none_streaming_append:
  "none_streaming (xs @ ys) = (none_streaming xs \<and> none_streaming ys)"
  by (simp add: none_streaming_def)

lemma filter_none_streaming: "none_streaming ms \<Longrightarrow> filter is_streaming ms = []"
  by (induction ms) (auto simp add: none_streaming_def)

lemma one_streaming_last_snoc:
  assumes "none_streaming pre" and "is_streaming a"
  shows "one_streaming_last (pre @ [a])"
  using assms by (simp add: one_streaming_last_def filter_none_streaming)

lemma userMessage_not_streaming: "\<not> is_streaming (userMessage ck text)"
  by (simp add: userMessage_def is_streaming_def)

lemma assistantMessage_streaming: "is_streaming ((assistantMessage ck)\<lparr>content := c\<rparr>)"
  by (simp add: assistantMessage_def is_streaming_def)

lemma apply_frame_others:
  "k \<noteq> sid \<Longrightarrow> sessionMessages (fst (apply_frame sid f (s, v))) k = sessionMessages s k"
  by (cases f) (simp_all add: Let_def)

lemma apply_frame_entry:
  assumes "getSessionMessages s sid = pre @ [a]" and "is_streaming a"
    and "content a = streamedContent v"
  shows "\<exists>s' v'. apply_frame sid f (s, v) = (s', v')
           \<and> getSessionMessages s' sid = pre @ [a\<lparr>content := streamedContent v'\<rparr>]"
proof (cases f)
  case (MessageFrame chunk)
  then show ?thesis
    using assms by (simp add: Let_def set_last_content_snoc getSessionMessages_def)
next
  case (PhaseFrame p)
  then show ?thesis using assms by (simp add: getSessionMessages_def)
next
  case (DoneFrame i)
  then show ?thesis using assms by (simp add: getSessionMessages_def)
next
  case (ErrorFrame m)
  then show ?thesis using assms by (simp add: getSessionMessages_def)
next
  case OtherFrame
  then show ?thesis using assms by (simp add: getSessionMessages_def)
qed

lemma run_step_entry:
  assumes "getSessionMessages s sid = pre @ [a]" and "is_streaming a"
    and "content a = streamedContent v" and "keeps_entry sid x"
  shows "\<exists>s' v'. run_step sid x (s, v) = (s', v')
           \<and> getSessionMessages s' sid = pre @ [a\<lparr>content := streamedContent v'\<rparr>]"
proof (cases x)
  case (Event f)
  then show ?thesis using apply_frame_entry [OF assms(1,2,3), of f] by simp
next
  case (Foreign g)
  have "getSessionMessages (g s) sid = getSessionMessages s sid"
    using assms(4) Foreign by (simp add: getSessionMessages_def)
  then show ?thesis using Foreign assms(1,3) by simp
qed

lemma run_steps_entry:
  assumes "getSessionMessages s sid = pre @ [a]" and "is_streaming a"
    and "content a = streamedContent v" and "list_all (keeps_entry sid) steps"
  shows "\<exists>s' v'. run_steps sid steps (s, v) = (s', v')
           \<and> getSessionMessages s' sid = pre @ [a\<lparr>content := streamedContent v'\<rparr>]"
  using assms
proof (induction steps arbitrary: s v a)
  case Nil
  then show ?case by (simp add: run_steps_def)
next
  case (Cons x steps)
  have kx: "keeps_entry sid x" and ks: "list_all (keeps_entry sid) steps"
    using Cons.prems(4) by simp_all
  from run_step_entry [OF Cons.prems(1,2,3) kx]
  obtain s1 v1 where step: "run_step sid x (s, v) = (s1, v1)"
    and msgs: "getSessionMessages s1 sid = pre @ [a\<lparr>content := streamedContent v1\<rparr>]"
    by blast
  have str: "is_streaming (a\<lparr>content := streamedContent v1\<rparr>)"
    using Cons.prems(2) by (simp add: is_streaming_def)
  have cont: "content (a\<lparr>content := streamedContent v1\<rparr>) = streamedContent v1"
    by simp
  from Cons.IH [OF msgs str cont ks]
  obtain s' v' where rest: "run_steps sid steps (s1, v1) = (s', v')"
    and msgs': "getSessionMessages s' sid
                  = pre @ [a\<lparr>content := streamedContent v1\<rparr>\<lparr>content := streamedContent v'\<rparr>]"
    by blast
  have "run_steps sid (x # steps) (s, v) = (s', v')"
    using step rest by (simp add: run_steps_def)
  moreover have "getSessionMessages s' sid = pre @ [a\<lparr>content := streamedContent v'\<rparr>]"
    using msgs' by simp
  ultimately show ?case by blast
qed

text \<open>
  The actions on another session, the actions that never touch the message cache, and the
  events of a stream on another session, leave the entry of a session as it is.
\<close>

lemma store_actions_keep_entry:
  "k \<noteq> sid \<Longrightarrow> keeps_entry sid (Foreign (selectSession_settle k r1))"
  "k \<noteq> sid \<Longrightarrow> keeps_entry sid (Foreign (deleteSession k r2))"
  "k \<noteq> sid \<Longrightarrow> keeps_entry sid (Foreign (\<lambda>st. fst (apply_frame k f (st, v))))"
  "k \<noteq> sid \<Longrightarrow> keeps_entry sid (Foreign (send_optimistic k um am))"
  "keeps_entry sid (Foreign (selectSession_begin k))"
  "keeps_entry sid (Foreign (archiveSession k r2))"
  "keeps_entry sid (Foreign (togglePinSession k r3))"
  "keeps_entry sid (Foreign (updateSession k r4))"
  "keeps_entry sid (Foreign (generateSessionTitle_settle k r5))"
  "keeps_entry sid (Foreign (fetchSessions_settle r6))"
proof -
  show "k \<noteq> sid \<Longrightarrow> keeps_entry sid (Foreign (selectSession_settle k r1))"
    by (cases r1) simp_all
  show "k \<noteq> sid \<Longrightarrow> keeps_entry sid (Foreign (deleteSession k r2))"
    by (cases r2) simp_all
  show "k \<noteq> sid \<Longrightarrow> keeps_entry sid (Foreign (\<lambda>st. fst (apply_frame k f (st, v))))"
    by (simp add: apply_frame_others)
  show "k \<noteq> sid \<Longrightarrow> keeps_entry sid (Foreign (send_optimistic k um am))"
    by (simp add: send_optimistic_def)
  show "keeps_entry sid (Foreign (selectSession_begin k))"
    by (simp add: selectSession_begin_def Let_def)
  show "keeps_entry sid (Foreign (archiveSession k r2))"
    by (cases r2) simp_all
  show "keeps_entry sid (Foreign (togglePinSession k r3))"
    by (cases r3) simp_all
  show "keeps_entry sid (Foreign (updateSession k r4))"
    by (cases r4) simp_all
  show "keeps_entry sid (Foreign (generateSessionTitle_settle k r5))"
    by (cases r5) simp_all
  show "keeps_entry sid (Foreign (fetchSessions_settle r6))"
    by (cases r6) simp_all
qed

text \<open>
  \<^bold>\<open>C3\<close>, as the code has it. \<^verbatim>\<open>sendMessage\<close> does not read the sending flag, and other
  actions can write the cache entry of the session between two reads, so the property
  needs two conditions: the pre-send sequence of the session holds no streaming element,
  and while the stream runs no other step writes the cache entry of that session (other
  steps may happen, in any number and at any point). Then after the optimistic append and
  after every step, so after every event applied by the stream, the session's cached
  sequence has exactly one streaming element and it is the last one. In particular this
  holds after every event and after every read of an undisturbed stream, where also the
  entry of every other session is what it was before the send. Without any condition, an
  event of the stream and the optimistic append never change the entry of another
  session.
\<close>
theorem stream_one_streaming_last:
  assumes "none_streaming (getSessionMessages st sid)"
    and "list_all (keeps_entry sid) steps"
  shows "one_streaming_last
           (getSessionMessages
              (fst (run_steps sid steps
                      (send_optimistic sid (userMessage ck text) (assistantMessage ck) st,
                       stream_vars0))) sid)
     \<and> (let s' = fst (apply_frames sid fs
                     (send_optimistic sid (userMessage ck text) (assistantMessage ck) st,
                      stream_vars0))
        in one_streaming_last (getSessionMessages s' sid)
           \<and> (\<forall>k. k \<noteq> sid \<longrightarrow> sessionMessages s' k = sessionMessages st k))
     \<and> (let s' = fst (read_loop parse sid chunks
                     (send_optimistic sid (userMessage ck text) (assistantMessage ck) st,
                      stream_vars0))
        in one_streaming_last (getSessionMessages s' sid)
           \<and> (\<forall>k. k \<noteq> sid \<longrightarrow> sessionMessages s' k = sessionMessages st k))
     \<and> (\<forall>k. k \<noteq> sid \<longrightarrow> sessionMessages (fst (apply_frame sid f (s, v))) k = sessionMessages s k)
     \<and> (\<forall>k. k \<noteq> sid \<longrightarrow> sessionMessages (send_optimistic sid um am s) k = sessionMessages s k)"
proof -
  let ?S = "(send_optimistic sid (userMessage ck text) (assistantMessage ck) st, stream_vars0)"
  have pre: "none_streaming (getSessionMessages st sid @ [userMessage ck text])"
    using assms(1) userMessage_not_streaming
    by (simp add: none_streaming_append) (simp add: none_streaming_def)
  have frames: "\<And>fs. let s' = fst (apply_frames sid fs ?S)
          in one_streaming_last (getSessionMessages s' sid)
             \<and> (\<forall>k. k \<noteq> sid \<longrightarrow> sessionMessages s' k = sessionMessages st k)"
  proof -
    fix fs
    from stream_after_send [of sid fs "userMessage ck text" ck st]
    obtain s' v' where run: "apply_frames sid fs ?S = (s', v')"
      and msgs: "getSessionMessages s' sid
          = getSessionMessages st sid
            @ [userMessage ck text, (assistantMessage ck)\<lparr>content := streamedContent v'\<rparr>]"
      and others: "\<forall>k. k \<noteq> sid \<longrightarrow> sessionMessages s' k = sessionMessages st k"
      by blast
    have "one_streaming_last
        ((getSessionMessages st sid @ [userMessage ck text])
         @ [(assistantMessage ck)\<lparr>content := streamedContent v'\<rparr>])"
      using pre assistantMessage_streaming by (rule one_streaming_last_snoc)
    then have "one_streaming_last (getSessionMessages s' sid)"
      using msgs by simp
    then show "let s' = fst (apply_frames sid fs ?S)
          in one_streaming_last (getSessionMessages s' sid)
             \<and> (\<forall>k. k \<noteq> sid \<longrightarrow> sessionMessages s' k = sessionMessages st k)"
      using run others by simp
  qed
  have mixed: "one_streaming_last (getSessionMessages (fst (run_steps sid steps ?S)) sid)"
  proof -
    have a: "is_streaming (assistantMessage ck)"
      by (simp add: is_streaming_def assistantMessage_def)
    have b: "content (assistantMessage ck) = streamedContent stream_vars0"
      by (simp add: assistantMessage_def stream_vars0_def)
    from run_steps_entry [OF send_optimistic_messages a b assms(2)]
    obtain s' v' where run: "run_steps sid steps ?S = (s', v')"
      and msgs: "getSessionMessages s' sid
          = (getSessionMessages st sid @ [userMessage ck text])
            @ [(assistantMessage ck)\<lparr>content := streamedContent v'\<rparr>]"
      by blast
    have "one_streaming_last
        ((getSessionMessages st sid @ [userMessage ck text])
         @ [(assistantMessage ck)\<lparr>content := streamedContent v'\<rparr>])"
      using pre assistantMessage_streaming by (rule one_streaming_last_snoc)
    then show ?thesis using run msgs by simp
  qed
  have own: "\<forall>k. k \<noteq> sid \<longrightarrow> sessionMessages (fst (apply_frame sid f (s, v))) k = sessionMessages s k"
    by (simp add: apply_frame_others)
  have opt: "\<forall>k. k \<noteq> sid \<longrightarrow> sessionMessages (send_optimistic sid um am s) k = sessionMessages s k"
    by (simp add: send_optimistic_others)
  show ?thesis
    using mixed frames [of fs] frames [of "decode_chunks parse chunks"] own opt
    by (simp add: read_loop_decoded)
qed

theorem stream_one_streaming_last_witness:
  "none_streaming (getSessionMessages ex_state ''a'')
   \<and> getSessionMessages ex_state ''a'' \<noteq> []
   \<and> list_all (keeps_entry ''a'') undisturbed_steps
   \<and> map (\<lambda>m. (is_streaming m, content m))
       (getSessionMessages
          (fst (run_steps ''a'' undisturbed_steps
                  (send_optimistic ''a'' (userMessage clock1 ''hello'')
                     (assistantMessage clock1) ex_state, stream_vars0)))
          ''a'')
     = [(False, ''hi''), (False, ''hello''), (True, ''HHe'')]"
proof -
  have h1: "none_streaming (getSessionMessages ex_state ''a'')"
    by (simp add: none_streaming_def ex_state_def initial_state_def getSessionMessages_def
        ex_message_def is_streaming_def)
  have h2: "list_all (keeps_entry ''a'') undisturbed_steps"
    by (simp add: undisturbed_steps_def)
  have h3: "getSessionMessages ex_state ''a'' \<noteq> []"
    by (simp add: ex_state_def initial_state_def getSessionMessages_def)
  have run: "map (\<lambda>m. (is_streaming m, content m))
       (getSessionMessages
          (fst (run_steps ''a'' undisturbed_steps
                  (send_optimistic ''a'' (userMessage clock1 ''hello'')
                     (assistantMessage clock1) ex_state, stream_vars0)))
          ''a'')
     = [(False, ''hi''), (False, ''hello''), (True, ''HHe'')]"
    by (simp add: undisturbed_steps_def run_steps_def ex_state_def initial_state_def
        ex_message_def ex_session_def clock1_def no_fields_def spread_detail_def spread_def
        or_else_def send_defs)
  show ?thesis
    using h1 h2 h3 run
      stream_one_streaming_last [OF h1 h2, where ck = clock1]
    by simp
qed

text \<open>
  Without the second condition the property fails. While the stream of \<open>s1\<close> runs, a
  \<^verbatim>\<open>deleteSession(s1)\<close> or the refresh of a \<^verbatim>\<open>selectSession(s1)\<close> that settles between
  two events replaces the entry, and after the next event the sequence has no streaming
  element; a second \<^verbatim>\<open>sendMessage\<close> on \<open>s1\<close> appends a second placeholder, and the
  sequence has two streaming elements, one of them not the last.
\<close>

theorem interleaved_write_counterexample:
  "getSessionMessages (fst (run_steps ''s1'' delete_steps (streaming_state, stream_vars0))) ''s1''
     = []
   \<and> \<not> one_streaming_last
         (getSessionMessages
            (fst (run_steps ''s1'' delete_steps (streaming_state, stream_vars0))) ''s1'')
   \<and> map is_streaming
       (getSessionMessages
          (fst (run_steps ''s1'' refresh_steps (streaming_state, stream_vars0))) ''s1'')
     = [False]
   \<and> \<not> one_streaming_last
         (getSessionMessages
            (fst (run_steps ''s1'' refresh_steps (streaming_state, stream_vars0))) ''s1'')
   \<and> map is_streaming
       (getSessionMessages
          (fst (run_steps ''s1'' second_send_steps (streaming_state, stream_vars0))) ''s1'')
     = [False, True, False, True]
   \<and> \<not> one_streaming_last
         (getSessionMessages
            (fst (run_steps ''s1'' second_send_steps (streaming_state, stream_vars0))) ''s1'')"
  by (simp add: delete_steps_def refresh_steps_def second_send_steps_def run_steps_def
      streaming_state_def one_streaming_last_def fresh_state_def initial_state_def
      ex_session_def ex_message_def clock1_def clock2_def no_fields_def spread_detail_def
      spread_def or_else_def send_defs)

subsection \<open>Reads and line boundaries\<close>

lemma split_nl_nonempty: "split_nl s \<noteq> []"
  by (induction s) (auto split: list.splits)

lemma split_nl_newline:
  "split_nl (a @ CHR 0x0A # b) = split_nl a @ split_nl b"
proof (induction a)
  case Nil
  show ?case by simp
next
  case (Cons c a)
  show ?case
  proof (cases "c = CHR 0x0A")
    case True
    then show ?thesis using Cons.IH by simp
  next
    case False
    obtain l ls where sa: "split_nl a = l # ls"
      using split_nl_nonempty [of a] by (cases "split_nl a") auto
    show ?thesis using False Cons.IH sa by simp
  qed
qed

lemma line_frame_empty: "line_frame parse [] = None"
  by (simp add: line_frame_def)

lemma decode_chunks_aligned:
  assumes "list_all line_aligned chunks"
  shows "decode_chunks parse chunks = decode_lines parse (split_nl (concat chunks))"
  using assms
proof (induction chunks)
  case Nil
  show ?case by (simp add: decode_chunks_def decode_lines_Cons decode_lines_Nil line_frame_empty)
next
  case (Cons c cs)
  have ih: "decode_chunks parse cs = decode_lines parse (split_nl (concat cs))"
    using Cons by simp
  have split: "decode_chunks parse (c # cs)
                 = decode_lines parse (split_nl c) @ decode_chunks parse cs"
    by (simp add: decode_chunks_def decode_lines_append)
  show ?case
  proof (cases "c = []")
    case True
    then show ?thesis
      using split ih by (simp add: decode_lines_Cons decode_lines_Nil line_frame_empty)
  next
    case False
    have "line_aligned c" using Cons.prems by simp
    with False obtain a where c: "c = a @ [CHR 0x0A]"
      by (metis line_aligned_def append_butlast_last_id)
    have "split_nl c = split_nl a @ [[]]"
      using split_nl_newline [of a "[]"] c by simp
    moreover have "split_nl (concat (c # cs)) = split_nl a @ split_nl (concat cs)"
      using split_nl_newline [of a "concat cs"] c by simp
    ultimately show ?thesis
      using split ih
      by (simp add: decode_lines_append decode_lines_Cons decode_lines_Nil line_frame_empty)
  qed
qed

text \<open>
  \<^bold>\<open>C2\<close>, as the code has it. The loop keeps nothing from one read to the next: each
  read is split at its newlines and each piece is parsed on its own. So for every
  sequence of frame lines \<open>ls\<close> and every partition of their bytes into reads each of
  which ends at the end of a line (or is empty), the decoded events, and the effect on
  the store, are the same as when every line arrives in a read of its own.
\<close>

theorem line_aligned_partition_same_events:
  assumes "list_all line_aligned chunks"
    and "concat chunks = concat (map (\<lambda>l. l @ [CHR 0x0A]) ls)"
  shows "decode_chunks parse chunks = decode_chunks parse (map (\<lambda>l. l @ [CHR 0x0A]) ls)
     \<and> read_loop parse sid chunks s = read_loop parse sid (map (\<lambda>l. l @ [CHR 0x0A]) ls) s"
proof -
  have al: "list_all line_aligned (map (\<lambda>l. l @ [CHR 0x0A]) ls)"
    by (induction ls) (simp_all add: line_aligned_def)
  have "decode_chunks parse chunks = decode_chunks parse (map (\<lambda>l. l @ [CHR 0x0A]) ls)"
    using decode_chunks_aligned [OF assms(1)] decode_chunks_aligned [OF al] assms(2)
    by simp
  then show ?thesis by (simp add: read_loop_decoded)
qed

theorem line_aligned_partition_same_events_witness:
  "list_all line_aligned aligned_reads
   \<and> concat aligned_reads = concat (map (\<lambda>l. l @ [CHR 0x0A]) whole_frames)
   \<and> decode_chunks example_parse aligned_reads = [MessageFrame ''H'', MessageFrame ''He'']
   \<and> decode_chunks example_parse (map (\<lambda>l. l @ [CHR 0x0A]) whole_frames)
       = [MessageFrame ''H'', MessageFrame ''He'']"
proof -
  have h1: "list_all line_aligned aligned_reads"
    by (simp add: aligned_reads_def line_aligned_def sse_def)
  have h2: "concat aligned_reads = concat (map (\<lambda>l. l @ [CHR 0x0A]) whole_frames)"
    by (simp add: aligned_reads_def whole_frames_def sse_def)
  have "decode_chunks example_parse (map (\<lambda>l. l @ [CHR 0x0A]) whole_frames)
       = [MessageFrame ''H'', MessageFrame ''He'']"
    by (simp add: whole_frames_def decode_chunks_def decode_lines_def map_filter_def
        line_frame_def payload_message_def example_table_def example_parse_def)
  then show ?thesis
    using h1 h2 line_aligned_partition_same_events [OF h1 h2, of example_parse]
    by simp
qed

text \<open>
  For a partition that cuts a line the claim fails: a \<^verbatim>\<open>message\<close> frame delivered in two
  reads, cut inside its payload, decodes to no event at all, and the fragment never
  reaches the buffer.
\<close>

theorem split_frame_counterexample:
  "concat split_reads = concat [sse (payload_message ''H'')]
   \<and> decode_chunks example_parse [sse (payload_message ''H'')] = [MessageFrame ''H'']
   \<and> decode_chunks example_parse split_reads = []
   \<and> streamingContent (fst (read_loop example_parse ''s1'' [sse (payload_message ''H'')]
         (streaming_state, stream_vars0))) = ''H''
   \<and> streamingContent (fst (read_loop example_parse ''s1'' split_reads
         (streaming_state, stream_vars0))) = []"
  by (simp add: split_reads_def decode_chunks_def decode_lines_def map_filter_def
      line_frame_def streaming_state_def payload_message_def payload_phase_def payload_done_def example_table_def
      example_parse_def sse_def clock1_def fresh_state_def initial_state_def ex_session_def send_defs)

subsection \<open>Whole sends\<close>

text \<open>
  \<^bold>\<open>C5\<close>, as the code has it. Sending \<open>hello\<close> on a session without messages, then
  \<^verbatim>\<open>message\<close> events with the fragments \<open>H\<close>, \<open>He\<close>, \<open>Hello\<close>, a \<^verbatim>\<open>phase\<close> event
  \<open>responding\<close>, a \<^verbatim>\<open>done\<close> event with id \<open>m-42\<close> and the end of the stream: the
  session has two messages, the user's \<open>hello\<close> and the assistant's with id \<open>m-42\<close>, not
  streaming, whose content is the concatenation \<open>HHeHello\<close> of the three fragments; a
  title generation is scheduled, the sending flag and the phase are cleared.
\<close>

theorem scenario_hello_final_state:
  "(let r = sendMessage example_parse scenario_env ''hello'' fresh_state
    in getSessionMessages (fst r) ''s1''
         = [\<lparr>msg_id = ''temp-1700000000000'', role = User, content = ''hello'',
             tool_call_id = None, tool_calls = None,
             msg_created_at = ''2023-11-14T22:13:20.000Z'', isStreaming = None\<rparr>,
            \<lparr>msg_id = ''m-42'', role = Assistant, content = ''HHeHello'',
             tool_call_id = None, tool_calls = None,
             msg_created_at = ''2023-11-14T22:13:20.000Z'', isStreaming = Some False\<rparr>]
       \<and> snd r = [ScheduleTitle ''s1'', RefreshPending]
       \<and> \<not> isSending (fst r) \<and> currentPhase (fst r) = None \<and> error (fst r) = None)"
  by (simp add: payload_message_def payload_phase_def payload_done_def example_table_def
      example_parse_def sse_def clock1_def fresh_state_def initial_state_def ex_session_def scenario_env_def send_defs)

text \<open>The content is not \<open>Hello\<close>: fragments are appended, so the three add up.\<close>

theorem scenario_hello_counterexample:
  "getSessionMessages fresh_state ''s1'' = []
   \<and> decode_chunks example_parse
        [sse (payload_message ''H''), sse (payload_message ''He''),
         sse (payload_message ''Hello''), sse (payload_phase ''responding''),
         sse (payload_done ''m-42'')]
       = [MessageFrame ''H'', MessageFrame ''He'', MessageFrame ''Hello'',
          PhaseFrame ''responding'', DoneFrame ''m-42'']
   \<and> content (last (getSessionMessages
         (fst (sendMessage example_parse scenario_env ''hello'' fresh_state)) ''s1''))
       \<noteq> ''Hello''"
  by (simp add: decode_chunks_def decode_lines_def map_filter_def line_frame_def
      payload_message_def payload_phase_def payload_done_def example_table_def
      example_parse_def sse_def clock1_def fresh_state_def initial_state_def ex_session_def scenario_env_def send_defs)

lemma is_temp_userMessage: "is_temp (userMessage ck text)"
  by (simp add: is_temp_def userMessage_def)

lemma is_temp_assistantMessage: "is_temp ((assistantMessage ck)\<lparr>content := c\<rparr>)"
  by (simp add: is_temp_def assistantMessage_def)

lemma filter_not_temp_id: "list_all (\<lambda>m. \<not> is_temp m) ms \<Longrightarrow> filter (\<lambda>m. \<not> is_temp m) ms = ms"
  by (induction ms) simp_all

lemma send_failed_fields:
  "getSessionMessages (send_failed sid e s) sid = filter (\<lambda>m. \<not> is_temp m) (getSessionMessages s sid)"
  "error (send_failed sid e s) = Some (err_message ''Failed to send message'' e)"
  "\<not> isSending (send_failed sid e s)"
  "currentPhase (send_failed sid e s) = None"
  "k \<noteq> sid \<Longrightarrow> sessionMessages (send_failed sid e s) k = sessionMessages s k"
  by (simp_all add: send_failed_def getSessionMessages_def)

text \<open>
  After a failed send the error slot holds the failure, the sending flag and the phase
  are cleared, and the session's sequence is the pre-send sequence without its messages
  whose id starts with \<open>temp-\<close>. The rollback is exact when the pre-send sequence has no
  such message.
\<close>

lemma rollback_exact_without_temp_ids:
  assumes "list_all (\<lambda>m. \<not> is_temp m) (getSessionMessages st sid)"
  shows "let s' = send_failed sid e
                    (fst (read_loop parse sid chunks
                            (send_optimistic sid (userMessage ck text) (assistantMessage ck) st,
                             stream_vars0)))
         in getSessionMessages s' sid = getSessionMessages st sid
            \<and> error s' = Some (err_message ''Failed to send message'' e)
            \<and> \<not> isSending s' \<and> currentPhase s' = None"
proof -
  from stream_after_send [of sid "decode_chunks parse chunks" "userMessage ck text" ck st]
  obtain s1 v1 where run: "read_loop parse sid chunks
        (send_optimistic sid (userMessage ck text) (assistantMessage ck) st, stream_vars0)
        = (s1, v1)"
    and msgs: "getSessionMessages s1 sid
        = getSessionMessages st sid
          @ [userMessage ck text, (assistantMessage ck)\<lparr>content := streamedContent v1\<rparr>]"
    by (auto simp add: read_loop_decoded)
  have "filter (\<lambda>m. \<not> is_temp m) (getSessionMessages s1 sid) = getSessionMessages st sid"
    using msgs assms
    by (simp add: filter_not_temp_id is_temp_userMessage is_temp_assistantMessage)
  then show ?thesis
    using run by (simp add: send_failed_fields)
qed

text \<open>
  \<^bold>\<open>C1\<close>, the code at a failing input. A completed send leaves the user message with
  its provisional id \<open>temp-1700000000000\<close> (only the assistant message takes the id of
  the \<^verbatim>\<open>done\<close> event). When the next send on that session fails, the rollback removes
  every message whose id starts with \<open>temp-\<close>, and with the two provisional messages of
  the failed send it removes the user message of the earlier, completed turn: the final
  sequence is not the pre-send sequence. The failure is recorded, the sending flag and
  the phase are cleared.
\<close>

theorem failed_send_drops_earlier_turn:
  "(let st1 = fst (sendMessage example_parse scenario_env ''hello'' fresh_state);
        st2 = fst (sendMessage example_parse failing_env ''again'' st1)
    in map msg_id (getSessionMessages st1 ''s1'') = [''temp-1700000000000'', ''m-42'']
       \<and> map msg_id (getSessionMessages st2 ''s1'') = [''m-42'']
       \<and> getSessionMessages st2 ''s1'' \<noteq> getSessionMessages st1 ''s1''
       \<and> error st2 = Some ''network error''
       \<and> \<not> isSending st2 \<and> currentPhase st2 = None)"
  by (simp add: payload_message_def payload_phase_def payload_done_def example_table_def
      example_parse_def sse_def clock1_def fresh_state_def initial_state_def ex_session_def scenario_env_def failing_env_def clock2_def send_defs)

subsection \<open>No streaming element outside a send\<close>

text \<open>
  The store starts without a streaming element in any cached sequence, and every action
  that runs to completion undisturbed keeps it so (for \<^verbatim>\<open>selectSession\<close>: if the fetched
  list has none). So the first condition of C3 holds for a send that starts when no other
  send is under way.
\<close>

lemma quiescent_iff:
  "quiescent st = (\<forall>k ms. sessionMessages st k = Some ms \<longrightarrow> none_streaming ms)"
  by (auto simp add: quiescent_def ran_def)

lemma quiescent_initial: "quiescent initial_state"
  by (simp add: quiescent_iff initial_state_def)

lemma quiescent_messages: "quiescent st \<Longrightarrow> none_streaming (getSessionMessages st sid)"
  by (cases "sessionMessages st sid")
     (auto simp add: quiescent_iff getSessionMessages_def none_streaming_def)

lemma quiescent_entry:
  assumes "quiescent st" and "none_streaming ms"
    and "\<forall>k. k \<noteq> sid \<longrightarrow> sessionMessages s' k = sessionMessages st k"
    and "sessionMessages s' sid = Some ms"
  shows "quiescent s'"
  unfolding quiescent_iff
proof (intro allI impI)
  fix k xs
  assume e: "sessionMessages s' k = Some xs"
  show "none_streaming xs"
  proof (cases "k = sid")
    case True
    then show ?thesis using e assms(2,4) by simp
  next
    case False
    then show ?thesis using e assms(1,3) by (simp add: quiescent_iff)
  qed
qed

lemma none_streaming_filter: "none_streaming ms \<Longrightarrow> none_streaming (filter P ms)"
  by (induction ms) (auto simp add: none_streaming_def)

lemma finalize_last_snoc:
  "is_streaming a \<Longrightarrow>
   finalize_last fid (pre @ [a])
     = pre @ [if fid \<noteq> [] then a\<lparr>isStreaming := Some False, msg_id := fid\<rparr>
              else a\<lparr>isStreaming := Some False\<rparr>]"
  by (simp add: finalize_last_def)

lemma stream_body_quiescent:
  assumes "quiescent st"
  shows "quiescent (fst (stream_body parse sid tr
                      (send_optimistic sid (userMessage ck text) (assistantMessage ck) st)))"
proof -
  let ?S = "(send_optimistic sid (userMessage ck text) (assistantMessage ck) st, stream_vars0)"
  have pre: "none_streaming (getSessionMessages st sid)"
    using assms by (rule quiescent_messages)
  have failed: "quiescent (send_failed sid e (fst (apply_frames sid fs ?S)))" for e fs
  proof -
    from stream_after_send [of sid fs "userMessage ck text" ck st]
    obtain s1 v1 where run: "apply_frames sid fs ?S = (s1, v1)"
      and msgs: "getSessionMessages s1 sid
          = getSessionMessages st sid
            @ [userMessage ck text, (assistantMessage ck)\<lparr>content := streamedContent v1\<rparr>]"
      and others: "\<forall>k. k \<noteq> sid \<longrightarrow> sessionMessages s1 k = sessionMessages st k"
      by blast
    have a: "none_streaming (filter (\<lambda>m. \<not> is_temp m) (getSessionMessages st sid))"
      using pre by (rule none_streaming_filter)
    have b: "sessionMessages (send_failed sid e s1) sid
               = Some (filter (\<lambda>m. \<not> is_temp m) (getSessionMessages st sid))"
      using msgs
      by (simp add: send_failed_def is_temp_userMessage is_temp_assistantMessage)
    have c: "\<forall>k. k \<noteq> sid \<longrightarrow> sessionMessages (send_failed sid e s1) k = sessionMessages st k"
      using others by (simp add: send_failed_def)
    show ?thesis using quiescent_entry [OF assms a c b] run by simp
  qed
  have finished: "quiescent (fetchSessions_begin
        (finalize sid (snd (apply_frames sid fs ?S)) (fst (apply_frames sid fs ?S))))" for fs
  proof -
    from stream_after_send [of sid fs "userMessage ck text" ck st]
    obtain s1 v1 where run: "apply_frames sid fs ?S = (s1, v1)"
      and msgs: "getSessionMessages s1 sid
          = (getSessionMessages st sid @ [userMessage ck text])
            @ [(assistantMessage ck)\<lparr>content := streamedContent v1\<rparr>]"
      and others: "\<forall>k. k \<noteq> sid \<longrightarrow> sessionMessages s1 k = sessionMessages st k"
      by auto
    let ?a = "(assistantMessage ck)\<lparr>content := streamedContent v1\<rparr>"
    let ?ms = "(getSessionMessages st sid @ [userMessage ck text])
        @ [if finalMessageId v1 \<noteq> []
           then ?a\<lparr>isStreaming := Some False, msg_id := finalMessageId v1\<rparr>
           else ?a\<lparr>isStreaming := Some False\<rparr>]"
    have a: "none_streaming ?ms"
      using pre userMessage_not_streaming [of ck "text"]
      by (simp add: none_streaming_def is_streaming_def)
    have b: "sessionMessages (fetchSessions_begin (finalize sid v1 s1)) sid = Some ?ms"
      using msgs
        finalize_last_snoc [OF assistantMessage_streaming [where ck = ck and c = "streamedContent v1"],
          where fid = "finalMessageId v1"
            and pre = "getSessionMessages st sid @ [userMessage ck text]"]
      by (simp add: fetchSessions_begin_def finalize_def)
    have c: "\<forall>k. k \<noteq> sid \<longrightarrow>
               sessionMessages (fetchSessions_begin (finalize sid v1 s1)) k = sessionMessages st k"
      using others by (simp add: fetchSessions_begin_def finalize_def)
    show ?thesis using quiescent_entry [OF assms a c b] run by simp
  qed
  have nil: "apply_frames sid [] ?S = ?S" by (simp add: apply_frames_def)
  show ?thesis
  proof (cases tr)
    case (RequestThrows e)
    then show ?thesis using failed [of e "[]"] by (simp add: stream_body_def nil)
  next
    case NotOk
    then show ?thesis
      using failed [of "JsError ''Stream request failed''" "[]"]
      by (simp add: stream_body_def nil)
  next
    case NoReader
    then show ?thesis
      using failed [of "JsError ''No reader available''" "[]"]
      by (simp add: stream_body_def nil)
  next
    case (Body chunks ending)
    show ?thesis
    proof (cases ending)
      case None
      then show ?thesis
        using Body finished [of "decode_chunks parse chunks"]
        by (auto simp add: stream_body_def read_loop_decoded Let_def split: prod.splits)
    next
      case (Some e)
      then show ?thesis
        using Body failed [of e "decode_chunks parse chunks"]
        by (auto simp add: stream_body_def read_loop_decoded split: prod.splits)
    qed
  qed
qed

lemma ensure_session_quiescent:
  assumes "quiescent st"
  shows "quiescent (fst (ensure_session env st))"
proof (cases "create_result env")
  case (Inl e)
  then show ?thesis
    using assms
    by (auto simp add: ensure_session_def createSession_begin_def quiescent_iff
        split: option.splits list.splits)
next
  case (Inr s)
  then show ?thesis
    using assms
    by (auto simp add: ensure_session_def createSession_begin_def quiescent_iff
        none_streaming_def split: option.splits list.splits if_splits)
qed

lemma sendMessage_quiescent:
  assumes "quiescent st"
  shows "quiescent (fst (sendMessage parse env text st))"
proof (cases "ensure_session env st")
  case (Pair st' r)
  have q: "quiescent st'"
    using ensure_session_quiescent [OF assms, of env] Pair by simp
  show ?thesis
  proof (cases r)
    case None
    then show ?thesis using Pair q by (simp add: sendMessage_def)
  next
    case (Some sid)
    then show ?thesis
      using Pair stream_body_quiescent [OF q] by (simp add: sendMessage_def)
  qed
qed

lemma registry_actions_quiescent:
  assumes "quiescent st"
  shows "quiescent (deleteSession sid r1 st)"
    and "quiescent (archiveSession sid r1 st)"
    and "quiescent (togglePinSession sid r2 st)"
    and "quiescent (updateSession sid r3 st)"
    and "quiescent (generateSessionTitle_settle sid r4 (generateSessionTitle_begin st))"
    and "quiescent (fetchSessions_settle r5 (fetchSessions_begin st))"
    and "quiescent (selectSession_begin sid st)"
    and "quiescent (selectSession_settle sid (Inl e) st)"
    and "none_streaming (messages_or_empty (d_messages resp))
           \<Longrightarrow> quiescent (selectSession_settle sid (Inr resp) st)"
proof -
  show "quiescent (deleteSession sid r1 st)"
    using assms by (cases r1) (auto simp add: quiescent_iff)
  show "quiescent (archiveSession sid r1 st)"
    using assms by (cases r1) (auto simp add: quiescent_iff)
  show "quiescent (togglePinSession sid r2 st)"
    using assms by (cases r2) (auto simp add: quiescent_iff)
  show "quiescent (updateSession sid r3 st)"
    using assms by (cases r3) (auto simp add: quiescent_iff)
  show "quiescent (generateSessionTitle_settle sid r4 (generateSessionTitle_begin st))"
    using assms by (cases r4) (auto simp add: quiescent_iff generateSessionTitle_begin_def)
  show "quiescent (fetchSessions_settle r5 (fetchSessions_begin st))"
    using assms by (cases r5) (auto simp add: quiescent_iff fetchSessions_begin_def)
  show "quiescent (selectSession_begin sid st)"
    using assms by (auto simp add: quiescent_iff selectSession_begin_def Let_def)
  show "quiescent (selectSession_settle sid (Inl e) st)"
    using assms by (auto simp add: quiescent_iff)
  show "none_streaming (messages_or_empty (d_messages resp))
           \<Longrightarrow> quiescent (selectSession_settle sid (Inr resp) st)"
    using assms by (auto simp add: quiescent_iff)
qed

subsection \<open>The order of the session list\<close>

lemma pin_compare_precedes: "(pin_compare a b \<le> 0) = precedes a b"
  by (auto simp add: pin_compare_def precedes_def)

lemma precedes_total: "\<not> precedes a b \<Longrightarrow> precedes b a"
  by (auto simp add: precedes_def)

lemma precedes_trans: "precedes a b \<Longrightarrow> precedes b c \<Longrightarrow> precedes a c"
  by (auto simp add: precedes_def)

lemma set_sort_insert: "set (sort_insert cmp x ys) = insert x (set ys)"
  by (induction ys) auto

lemma set_array_sort: "set (array_sort cmp xs) = set xs"
  by (induction xs) (simp_all add: array_sort_def set_sort_insert)

lemma sorted_sort_insert:
  "sorted_wrt precedes ys \<Longrightarrow> sorted_wrt precedes (sort_insert pin_compare x ys)"
proof (induction ys)
  case Nil
  show ?case by simp
next
  case (Cons y ys)
  show ?case
  proof (cases "pin_compare x y \<le> 0")
    case True
    then have xy: "precedes x y" by (simp add: pin_compare_precedes)
    have "\<forall>z \<in> set ys. precedes x z"
      using xy Cons.prems precedes_trans by auto
    then show ?thesis using True xy Cons.prems by simp
  next
    case False
    then have yx: "precedes y x"
      using precedes_total by (simp add: pin_compare_precedes)
    show ?thesis
      using False yx Cons by (auto simp add: set_sort_insert)
  qed
qed

lemma sorted_array_sort: "pin_ordered (array_sort pin_compare xs)"
  unfolding pin_ordered_def
proof (induction xs)
  case Nil
  show ?case by (simp add: array_sort_def)
next
  case (Cons x xs)
  then show ?case
    using sorted_sort_insert [of "array_sort pin_compare xs" x]
    by (simp add: array_sort_def)
qed

lemma pin_ordered_filter: "pin_ordered ss \<Longrightarrow> pin_ordered (filter P ss)"
  by (simp add: pin_ordered_def sorted_wrt_filter)

lemma apply_op_ordered:
  assumes "pin_ordered (sessions st) \<or> pin_succeeded op"
  shows "pin_ordered (sessions (apply_op op st))"
proof (cases op)
  case (TogglePin sid r)
  then show ?thesis
    using assms by (cases r) (auto simp add: sorted_array_sort)
next
  case (Archive sid r)
  then show ?thesis using assms by (cases r) (auto simp add: pin_ordered_filter)
next
  case (Delete sid r)
  then show ?thesis using assms by (cases r) (auto simp add: pin_ordered_filter)
qed

lemma apply_ops_Cons: "apply_ops (op # ops) st = apply_ops ops (apply_op op st)"
  by (simp add: apply_ops_def)

lemma apply_ops_ordered:
  "pin_ordered (sessions st) \<or> list_ex pin_succeeded ops
     \<Longrightarrow> pin_ordered (sessions (apply_ops ops st))"
proof (induction ops arbitrary: st)
  case Nil
  then show ?case by (simp add: apply_ops_def)
next
  case (Cons op ops)
  show ?case
  proof (cases "pin_ordered (sessions st) \<or> pin_succeeded op")
    case True
    then have "pin_ordered (sessions (apply_op op st))" by (rule apply_op_ordered)
    then show ?thesis using Cons.IH [of "apply_op op st"] by (simp add: apply_ops_Cons)
  next
    case False
    then have "list_ex pin_succeeded ops" using Cons.prems by simp
    then show ?thesis using Cons.IH [of "apply_op op st"] by (simp add: apply_ops_Cons)
  qed
qed

lemma apply_op_ids: "sess_id ` set (sessions (apply_op op st)) \<subseteq> sess_id ` set (sessions st)"
proof (cases op)
  case (TogglePin sid r)
  then show ?thesis by (cases r) (auto simp add: set_array_sort)
next
  case (Archive sid r)
  then show ?thesis by (cases r) auto
next
  case (Delete sid r)
  then show ?thesis by (cases r) auto
qed

lemma apply_ops_ids: "sess_id ` set (sessions (apply_ops ops st)) \<subseteq> sess_id ` set (sessions st)"
proof (induction ops arbitrary: st)
  case Nil
  show ?case by (simp add: apply_ops_def)
next
  case (Cons op ops)
  show ?case
    using Cons.IH [of "apply_op op st"] apply_op_ids [of op st]
    by (auto simp add: apply_ops_Cons)
qed

lemma removed_ids_head:
  assumes "x \<in> set (removed_ids (op # ops))"
  shows "x \<in> set (removed_ids ops) \<or> x \<notin> sess_id ` set (sessions (apply_op op st))"
proof (cases op)
  case (TogglePin sid r)
  then show ?thesis using assms by simp
next
  case (Archive sid r)
  then show ?thesis using assms by (cases r) auto
next
  case (Delete sid r)
  then show ?thesis using assms by (cases r) auto
qed

lemma apply_ops_removed:
  "set (removed_ids ops) \<inter> sess_id ` set (sessions (apply_ops ops st)) = {}"
proof (induction ops arbitrary: st)
  case Nil
  show ?case by simp
next
  case (Cons op ops)
  define st1 where "st1 = apply_op op st"
  have ih: "set (removed_ids ops) \<inter> sess_id ` set (sessions (apply_ops ops st1)) = {}"
    by (rule Cons.IH)
  have sub: "sess_id ` set (sessions (apply_ops ops st1)) \<subseteq> sess_id ` set (sessions st1)"
    by (rule apply_ops_ids)
  have hd: "\<forall>x \<in> set (removed_ids (op # ops)).
              x \<in> set (removed_ids ops) \<or> x \<notin> sess_id ` set (sessions st1)"
    using removed_ids_head [of _ op ops st] by (simp add: st1_def)
  have run: "apply_ops (op # ops) st = apply_ops ops st1"
    by (simp add: apply_ops_Cons st1_def)
  show ?case unfolding run using ih sub hd by blast
qed

lemma apply_op_archived:
  assumes "list_all (\<lambda>s. \<not> is_archived s) (sessions st)"
  shows "list_all (\<lambda>s. \<not> is_archived s) (sessions (apply_op op st))"
proof (cases op)
  case (TogglePin sid r)
  then show ?thesis
    using assms by (cases r) (auto simp add: list_all_iff set_array_sort)
next
  case (Archive sid r)
  then show ?thesis using assms by (cases r) (auto simp add: list_all_iff)
next
  case (Delete sid r)
  then show ?thesis using assms by (cases r) (auto simp add: list_all_iff)
qed

lemma apply_ops_archived:
  "list_all (\<lambda>s. \<not> is_archived s) (sessions st)
     \<Longrightarrow> list_all (\<lambda>s. \<not> is_archived s) (sessions (apply_ops ops st))"
proof (induction ops arbitrary: st)
  case Nil
  then show ?case by (simp add: apply_ops_def)
next
  case (Cons op ops)
  then show ?case using apply_op_archived [of st op] by (simp add: apply_ops_Cons)
qed

text \<open>
  \<^bold>\<open>C6\<close>, as the code has it. Only \<^verbatim>\<open>togglePinSession\<close> sorts; \<^verbatim>\<open>archiveSession\<close> and
  \<^verbatim>\<open>deleteSession\<close> filter the list and keep its order. So for every sequence of these
  calls: if the list is in the pin/recency order already, or at least one pin call of the
  sequence succeeds, the resulting list is in that order (pinned before unpinned, each
  block by descending \<^verbatim>\<open>updated_at\<close>). In every case, with or without that condition, the
  resulting list holds no session whose archive or delete call succeeded, and no entry
  with the archived flag unless the list had one before.
\<close>
theorem registry_ops_keep_order:
  "(pin_ordered (sessions st) \<or> list_ex pin_succeeded ops
      \<longrightarrow> pin_ordered (sessions (apply_ops ops st)))
   \<and> list_all (\<lambda>s. sess_id s \<notin> set (removed_ids ops)) (sessions (apply_ops ops st))
   \<and> (list_all (\<lambda>s. \<not> is_archived s) (sessions st)
        \<longrightarrow> list_all (\<lambda>s. \<not> is_archived s) (sessions (apply_ops ops st)))"
proof -
  have "list_all (\<lambda>s. sess_id s \<notin> set (removed_ids ops)) (sessions (apply_ops ops st))"
    using apply_ops_removed [of ops st] by (auto simp add: list_all_iff)
  then show ?thesis
    using apply_ops_ordered [of st ops] apply_ops_archived [of st ops] by blast
qed

theorem registry_ops_keep_order_witness:
  "list_ex pin_succeeded
     [TogglePin ''c'' (Inr (ex_session ''c'' True 5)), Archive ''a'' (Inr ()),
      Delete ''b'' (Inl (JsError ''offline''))]
   \<and> list_all (\<lambda>s. \<not> is_archived s) (sessions registry_state)
   \<and> \<not> pin_ordered (sessions registry_state)
   \<and> map sess_id
       (sessions
          (apply_ops
             [TogglePin ''c'' (Inr (ex_session ''c'' True 5)), Archive ''a'' (Inr ()),
              Delete ''b'' (Inl (JsError ''offline''))] registry_state))
     = [''c'', ''b'']
   \<and> pin_ordered
       (sessions
          (apply_ops
             [TogglePin ''c'' (Inr (ex_session ''c'' True 5)), Archive ''a'' (Inr ()),
              Delete ''b'' (Inl (JsError ''offline''))] registry_state))
   \<and> \<not> pin_ordered (sessions created_state)
   \<and> removed_ids [Archive ''other'' (Inr ())] = [''other'']
   \<and> list_all (\<lambda>s. sess_id s \<notin> set (removed_ids [Archive ''other'' (Inr ())]))
       (sessions (apply_ops [Archive ''other'' (Inr ())] created_state))
   \<and> list_all (\<lambda>s. \<not> is_archived s)
       (sessions (apply_ops [Archive ''other'' (Inr ())] created_state))"
proof -
  have a: "list_all (\<lambda>s. \<not> is_archived s) (sessions registry_state)"
    by (simp add: registry_state_def initial_state_def ex_session_def)
  have b: "\<not> pin_ordered (sessions registry_state)"
    by (simp add: registry_state_def initial_state_def ex_session_def pin_ordered_def
        precedes_def)
  have c: "map sess_id
       (sessions
          (apply_ops
             [TogglePin ''c'' (Inr (ex_session ''c'' True 5)), Archive ''a'' (Inr ()),
              Delete ''b'' (Inl (JsError ''offline''))] registry_state))
     = [''c'', ''b'']"
    by (simp add: registry_state_def initial_state_def ex_session_def apply_ops_def
        array_sort_def pin_compare_def)
  have d: "\<not> pin_ordered (sessions created_state)"
    by (simp add: created_state_def initial_state_def ex_session_def pin_ordered_def
        precedes_def)
  have e: "list_all (\<lambda>s. \<not> is_archived s) (sessions created_state)"
    by (simp add: created_state_def initial_state_def ex_session_def)
  show ?thesis
    using a b c d e
      registry_ops_keep_order
        [of registry_state
            "[TogglePin ''c'' (Inr (ex_session ''c'' True 5)), Archive ''a'' (Inr ()),
              Delete ''b'' (Inl (JsError ''offline''))]"]
      registry_ops_keep_order [of created_state "[Archive ''other'' (Inr ())]"]
    by simp
qed

text \<open>
  Without such a list the order can fail: after \<^verbatim>\<open>createSession\<close> has put a new
  unpinned session before a pinned one, archiving a third session leaves the unpinned one
  first.
\<close>

theorem archive_keeps_unsorted_counterexample:
  "map sess_id (sessions created_state) = [''new'', ''old'', ''other'']
   \<and> sessions (apply_ops [Archive ''other'' (Inr ())] created_state)
       = [ex_session ''new'' False 30, ex_session ''old'' True 10]
   \<and> \<not> pin_ordered (sessions (apply_ops [Archive ''other'' (Inr ())] created_state))"
  by (simp add: created_state_def initial_state_def ex_session_def apply_ops_def
      pin_ordered_def precedes_def)

end
